theory Spec2Isabelle
  imports Complex_Main "HOL-Library.Word"
begin

section \<open>Python and NumPy values\<close>

text \<open>
  The exceptions that the modelled code can raise.  Every raise of the source is a branch
  of the model returning \<open>Inl\<close> of one of these.
\<close>

datatype py_error = IndexError | KeyError | ValueError | TypeError | AttributeError

type_synonym 'a result = "py_error + 'a"

definition bind :: "'a result \<Rightarrow> ('a \<Rightarrow> 'b result) \<Rightarrow> 'b result" where
  "bind m f = (case m of Inl e \<Rightarrow> Inl e | Inr x \<Rightarrow> f x)"

text \<open>
  NumPy integer arrays have a fixed width: \<open>int64\<close> is what \<open>np.arange\<close> and integer
  powers compute in, \<open>int32\<close> is the declared element type of the index tables.  Arithmetic
  and narrowing assignments wrap around silently in two's complement.
\<close>

definition wrap64 :: "int \<Rightarrow> int" where
  "wrap64 x = (x + 2 ^ 63) mod 2 ^ 64 - 2 ^ 63"

definition wrap32 :: "int \<Rightarrow> int" where
  "wrap32 x = (x + 2 ^ 31) mod 2 ^ 32 - 2 ^ 31"

text \<open>
  Indexing a Python list or the first axis of a NumPy array: a negative index counts from
  the end, anything outside \<open>[-n, n)\<close> raises \<open>IndexError\<close>.
\<close>

definition py_index :: "'a list \<Rightarrow> int \<Rightarrow> 'a result" where
  "py_index xs i =
     (let n = int (length xs); j = (if i < 0 then i + n else i)
      in if 0 \<le> j \<and> j < n then Inr (xs ! nat j) else Inl IndexError)"

text \<open>Python's slice \<open>xs[start:stop]\<close>, with the clamping of both ends.\<close>

definition slice_bound :: "nat \<Rightarrow> int \<Rightarrow> nat" where
  "slice_bound n i = (if i < 0 then nat (max (i + int n) 0) else min (nat i) n)"

definition py_slice :: "'a list \<Rightarrow> int \<Rightarrow> int \<Rightarrow> 'a list" where
  "py_slice xs start stop =
     (let s = slice_bound (length xs) start; e = slice_bound (length xs) stop
      in take (e - s) (drop s xs))"

text \<open>
  Assigning a one-dimensional array into a row of \<open>n\<close> elements: the shapes must agree,
  except that a single element is broadcast over the row.
\<close>

definition assign_row :: "nat \<Rightarrow> 'a list \<Rightarrow> 'a list result" where
  "assign_row n src =
     (if length src = n then Inr src
      else if length src = 1 then Inr (replicate n (hd src))
      else Inl ValueError)"

text \<open>A \<open>for\<close> loop over a list of indices, threading the loop state and stopping at the
  first exception.\<close>

primrec for_each :: "'i list \<Rightarrow> ('i \<Rightarrow> 'st \<Rightarrow> 'st result) \<Rightarrow> 'st \<Rightarrow> 'st result" where
  "for_each [] body st = Inr st"
| "for_each (i # is) body st =
     (case body i st of Inl e \<Rightarrow> Inl e | Inr st' \<Rightarrow> for_each is body st')"

section \<open>The k-mer encoder\<close>

text \<open>
  \<open>self.kmer_kernel = 5**np.arange(self.kmer)\<close>: the powers of five in \<open>int64\<close>.
\<close>

definition kmer_kernel :: "nat \<Rightarrow> int list" where
  "kmer_kernel k = map (\<lambda>j. wrap64 (5 ^ j)) [0..<k]"

definition dot64 :: "int list \<Rightarrow> int list \<Rightarrow> int" where
  "dot64 xs ys = wrap64 (sum_list (map2 (*) xs ys))"

text \<open>
  \<open>np.correlate(a, v, mode="valid")\<close> for \<open>len(v) \<le> len(a)\<close>: position \<open>i\<close> holds the
  product sum of \<open>a[i:i+len(v)]\<close> with \<open>v\<close>.
\<close>

definition correlate_valid :: "int list \<Rightarrow> int list \<Rightarrow> int list" where
  "correlate_valid a v =
     map (\<lambda>i. dot64 (take (length v) (drop i a)) v) [0..<length a - length v + 1]"

text \<open>
  \<open>np.convolve(a, v, mode="valid")\<close>: NumPy swaps the operands when \<open>v\<close> is the longer
  one, rejects an empty operand, and correlates with the reversed second operand.
\<close>

definition np_convolve_valid :: "int list \<Rightarrow> int list \<Rightarrow> int list result" where
  "np_convolve_valid a v =
     (let (a', v') = (if length v > length a then (v, a) else (a, v))
      in if a' = [] then Inl ValueError
         else if v' = [] then Inl ValueError
         else Inr (correlate_valid a' (rev v')))"

text \<open>
  \<open>self.to_kmers\<close> as the constructor selects it: the convolution for \<open>kmer > 1\<close>, the
  identity otherwise.
\<close>

definition to_kmers :: "nat \<Rightarrow> int list \<Rightarrow> int list result" where
  "to_kmers k x = (if k > 1 then np_convolve_valid x (kmer_kernel k) else Inr x)"

section \<open>Archives\<close>

text \<open>
  An archive is an LMDB store opened through \<open>lmdbm\<close>: keys are unique, \<open>len\<close> counts the
  entries, and a lookup of a missing key raises \<open>KeyError\<close>.  The store is an external
  collaborator; only this interface is modelled.
\<close>

type_synonym byte = "8 word"

type_synonym archive = "(string \<times> byte list) list"

definition lmdb_len :: "archive \<Rightarrow> int" where
  "lmdb_len a = int (length a)"

definition lmdb_get :: "archive \<Rightarrow> string \<Rightarrow> byte list result" where
  "lmdb_get a key = (case map_of a key of None \<Rightarrow> Inl KeyError | Some v \<Rightarrow> Inr v)"

text \<open>\<open>str(i)\<close> of an integer: its decimal digits, with a minus sign when negative.\<close>

definition digit_char :: "nat \<Rightarrow> char" where
  "digit_char d = ''0123456789'' ! d"

fun str_nat :: "nat \<Rightarrow> string" where
  "str_nat n = (if n < 10 then [digit_char n] else str_nat (n div 10) @ [digit_char (n mod 10)])"

definition py_str :: "int \<Rightarrow> string" where
  "py_str i = (if i < 0 then CHR ''-'' # str_nat (nat (- i)) else str_nat (nat i))"

text \<open>\<open>np.frombuffer(b, dtype=np.uint8)\<close>: the bytes as unsigned values.\<close>

definition frombuffer :: "byte list \<Rightarrow> int list" where
  "frombuffer bs = map uint bs"

section \<open>Floating-point values and the random generator\<close>

text \<open>
  A \<open>float64\<close> is modelled as the real number it denotes, and products are exact.
  \<open>int(x)\<close> and \<open>astype(int)\<close> truncate towards zero.
\<close>

definition py_int :: "real \<Rightarrow> int" where
  "py_int x = (if 0 \<le> x then \<lfloor>x\<rfloor> else \<lceil>x\<rceil>)"

text \<open>
  The NumPy \<open>Generator\<close> is an external collaborator.  Its state has an arbitrary type
  \<open>'s\<close>; the three methods the code calls are functions of that state, returning the
  drawn values (flat, in C order) and the next state.
  \<^item> \<open>integers high n\<close> is \<open>rng.integers(high, size=..., dtype=np.int32)\<close> with \<open>n\<close> elements;
  \<^item> \<open>uniform n\<close> is \<open>rng.uniform(size=...)\<close> with \<open>n\<close> elements;
  \<^item> \<open>choice pop k\<close> is \<open>rng.choice(pop, k, replace=False)\<close>.
\<close>

record 's rng_ops =
  integers :: "int \<Rightarrow> nat \<Rightarrow> 's \<Rightarrow> (int list \<times> 's) result"
  uniform :: "nat \<Rightarrow> 's \<Rightarrow> real list \<times> 's"
  choice :: "int list \<Rightarrow> nat \<Rightarrow> 's \<Rightarrow> (int list \<times> 's) result"

text \<open>
  What the code relies on from NumPy: the number and the range of the draws, and that a
  draw without replacement takes distinct positions of the population.
\<close>

definition rng_ok :: "'s rng_ops \<Rightarrow> bool" where
  "rng_ok ops \<longleftrightarrow>
     (\<forall>high n s xs s'. integers ops high n s = Inr (xs, s') \<longrightarrow>
         length xs = n \<and> (\<forall>x\<in>set xs. 0 \<le> x \<and> x < high)) \<and>
     (\<forall>n s. length (fst (uniform ops n s)) = n \<and>
         (\<forall>u\<in>set (fst (uniform ops n s)). 0 \<le> u \<and> u < 1)) \<and>
     (\<forall>pop k s xs s'. choice ops pop k s = Inr (xs, s') \<longrightarrow>
         length xs = k \<and> set xs \<subseteq> set pop \<and> (distinct pop \<longrightarrow> distinct xs))"

text \<open>Arrays of two and three dimensions are nested lists, filled in C order.\<close>

definition chunks :: "nat \<Rightarrow> nat \<Rightarrow> 'a list \<Rightarrow> 'a list list" where
  "chunks n c xs = map (\<lambda>i. take c (drop (i * c) xs)) [0..<n]"

definition reshape2 :: "nat \<Rightarrow> nat \<Rightarrow> 'a list \<Rightarrow> 'a list list" where
  "reshape2 r c xs = chunks r c xs"

definition reshape3 :: "nat \<Rightarrow> nat \<Rightarrow> nat \<Rightarrow> 'a list \<Rightarrow> 'a list list list" where
  "reshape3 r c g xs = map (chunks c g) (chunks r (c * g) xs)"

text \<open>
  \<open>np.empty\<close> returns uninitialised memory: its contents are whatever \<open>junk\<close> happens to
  hold, an argument that nothing constrains.
\<close>

definition np_empty1 :: "nat \<Rightarrow> (nat \<Rightarrow> 'a) \<Rightarrow> 'a list" where
  "np_empty1 n junk = map junk [0..<n]"

definition np_empty2 :: "nat \<Rightarrow> nat \<Rightarrow> (nat \<Rightarrow> 'a) \<Rightarrow> 'a list list" where
  "np_empty2 r c junk = reshape2 r c (np_empty1 (r * c) junk)"

definition np_empty3 :: "nat \<Rightarrow> nat \<Rightarrow> nat \<Rightarrow> (nat \<Rightarrow> 'a) \<Rightarrow> 'a list list list" where
  "np_empty3 r c g junk = reshape3 r c g (np_empty1 (r * c * g) junk)"

definition np_arange :: "int \<Rightarrow> int list" where
  "np_arange n = map int [0..<nat n]"

primrec map_result :: "('a \<Rightarrow> 'b result) \<Rightarrow> 'a list \<Rightarrow> 'b list result" where
  "map_result f [] = Inr []"
| "map_result f (x # xs) =
     (case f x of Inl e \<Rightarrow> Inl e
      | Inr y \<Rightarrow> (case map_result f xs of Inl e \<Rightarrow> Inl e | Inr ys \<Rightarrow> Inr (y # ys)))"

text \<open>\<open>np.min\<close> raises \<open>ValueError\<close> on an empty array.\<close>

definition np_min :: "int list \<Rightarrow> int result" where
  "np_min xs = (case xs of [] \<Rightarrow> Inl ValueError | x # xs' \<Rightarrow> Inr (fold min xs' x))"

text \<open>
  Assigning a two-dimensional array into a block of \<open>g\<close> rows of \<open>m\<close> elements, with the
  broadcasting of a single row.
\<close>

definition assign_rows :: "nat \<Rightarrow> nat \<Rightarrow> 'a list list \<Rightarrow> 'a list list result" where
  "assign_rows g m src =
     (if length src = g then map_result (assign_row m) src
      else if length src = 1 then
        (case assign_row m (hd src) of Inl e \<Rightarrow> Inl e | Inr row \<Rightarrow> Inr (replicate g row))
      else Inl ValueError)"

section \<open>The sequence generator\<close>

datatype DnaLabelType = SampleIds | OneMer | KMer

text \<open>
  The attributes of a \<open>DnaSequenceGenerator\<close> object.  The element types of the sequence
  index table and of the offset table are parameters: an index or a fraction per slot in
  the base class, a list of them per slot in \<open>DnaSampleGenerator\<close>.  \<open>augment_offsets\<close> is
  \<open>None\<close> while the attribute has never been assigned.
\<close>

record ('s, 'i, 'u) DnaSequenceGenerator =
  samples :: "archive list"
  sample_lengths :: "int list"
  num_samples :: nat
  sequence_length :: nat
  kmer :: nat
  augment :: bool
  batch_size :: nat
  batches_per_epoch :: nat
  balance :: bool
  labels :: "DnaLabelType option"
  rng :: 's
  sample_indices :: "int list list"
  sequence_indices :: "'i list list"
  augment_offsets :: "'u list list option"

record 's DnaSampleGenerator = "('s, int list, real list) DnaSequenceGenerator" +
  subsample_length :: nat

text \<open>What a batch request returns, by label mode.\<close>

datatype ('f, 'b) batch_out =
  Plain 'f
| WithSampleIds 'f "int list"
| WithOneMer 'f 'b
| WithKMer 'f 'f

text \<open>
  The statements of \<open>__init__\<close> before the first shuffle: the archive lengths, clamped to
  their minimum under \<open>balance\<close>.
\<close>

definition init_sample_lengths :: "archive list \<Rightarrow> bool \<Rightarrow> int list result" where
  "init_sample_lengths archives bal =
     (let lens = map lmdb_len archives
      in if bal then bind (np_min lens) (\<lambda>m. Inr (map (\<lambda>_. m) lens)) else Inr lens)"

text \<open>\<open>self.sample_lengths[self.sample_indices]\<close>: an index array applied to the lengths.\<close>

definition take_lengths :: "int list \<Rightarrow> int list list \<Rightarrow> int list list result" where
  "take_lengths lens idx = map_result (map_result (py_index lens)) idx"

subsection \<open>\<open>DnaSequenceGenerator.shuffle\<close>\<close>

definition shuffle ::
  "'s rng_ops \<Rightarrow> ('s, int, real, 'z) DnaSequenceGenerator_scheme
     \<Rightarrow> ('s, int, real, 'z) DnaSequenceGenerator_scheme result" where
  "shuffle ops g =
     (let r = batches_per_epoch g; c = batch_size g
      in bind (integers ops (int (num_samples g)) (r * c) (rng g)) (\<lambda>(si, s1).
         let sidx = reshape2 r c si
         in bind (take_lengths (sample_lengths g) sidx) (\<lambda>lengths.
            let (us, s2) = uniform ops (r * c) s1;
                qidx = map2 (map2 (\<lambda>l u. py_int (real_of_int l * u))) lengths (reshape2 r c us);
                g' = g\<lparr>sample_indices := sidx, sequence_indices := qidx\<rparr>
            in if augment g
               then (let (os, s3) = uniform ops (r * c) s2
                     in Inr (g'\<lparr>rng := s3, augment_offsets := Some (reshape2 r c os)\<rparr>))
               else Inr (g'\<lparr>rng := s2\<rparr>))))"

subsection \<open>\<open>DnaSequenceGenerator.__init__\<close>\<close>

definition DnaSequenceGenerator_init ::
  "'s rng_ops \<Rightarrow> archive list \<Rightarrow> nat \<Rightarrow> nat \<Rightarrow> nat \<Rightarrow> nat \<Rightarrow> bool \<Rightarrow> bool
     \<Rightarrow> DnaLabelType option \<Rightarrow> 's \<Rightarrow> ('s, int, real) DnaSequenceGenerator result" where
  "DnaSequenceGenerator_init ops archives seq_len k bs bpe aug bal lbl seed =
     bind (init_sample_lengths archives bal) (\<lambda>lens.
       shuffle ops
         \<lparr>samples = archives, sample_lengths = lens, num_samples = length archives,
          sequence_length = seq_len, kmer = k, augment = aug, batch_size = bs,
          batches_per_epoch = bpe, balance = bal, labels = lbl, rng = seed,
          sample_indices = [], sequence_indices = [], augment_offsets = None\<rparr>)"

subsection \<open>Offsets and clipping\<close>

text \<open>
  \<open>compute_augmented_offset\<close>, for a two-index and for a three-index \<open>augment_index\<close>.
\<close>

definition offset_of :: "nat \<Rightarrow> int \<Rightarrow> real \<Rightarrow> int" where
  "offset_of seq_len sequence_len u = py_int (u * real_of_int (sequence_len - int seq_len + 1))"

definition compute_augmented_offset ::
  "('s, 'i, real, 'z) DnaSequenceGenerator_scheme \<Rightarrow> int \<Rightarrow> int \<times> int \<Rightarrow> int result" where
  "compute_augmented_offset g sequence_len augment_index =
     (case augment_offsets g of
        None \<Rightarrow> Inl AttributeError
      | Some tbl \<Rightarrow>
          bind (py_index tbl (fst augment_index)) (\<lambda>row.
          bind (py_index row (snd augment_index)) (\<lambda>u.
          Inr (offset_of (sequence_length g) sequence_len u))))"

definition compute_augmented_offset3 ::
  "('s, 'i, real list, 'z) DnaSequenceGenerator_scheme \<Rightarrow> int \<Rightarrow> int \<times> int \<times> int
     \<Rightarrow> int result" where
  "compute_augmented_offset3 g sequence_len augment_index =
     (case augment_offsets g of
        None \<Rightarrow> Inl AttributeError
      | Some tbl \<Rightarrow>
          bind (py_index tbl (fst augment_index)) (\<lambda>plane.
          bind (py_index plane (fst (snd augment_index))) (\<lambda>row.
          bind (py_index row (snd (snd augment_index))) (\<lambda>u.
          Inr (offset_of (sequence_length g) sequence_len u)))))"

text \<open>
  \<open>self.augment_offset_fn\<close>.  Without augmentation it is \<open>lambda *_: 0\<close>, a function of
  positional arguments only: a call that passes \<open>augment_index\<close> by keyword raises
  \<open>TypeError\<close>.
\<close>

datatype call_style = Positional | Keyword

definition augment_offset_fn ::
  "('s, 'i, real, 'z) DnaSequenceGenerator_scheme \<Rightarrow> call_style \<Rightarrow> int \<Rightarrow> int \<times> int
     \<Rightarrow> int result" where
  "augment_offset_fn g style sequence_len augment_index =
     (if augment g then compute_augmented_offset g sequence_len augment_index
      else (case style of Keyword \<Rightarrow> Inl TypeError | Positional \<Rightarrow> Inr 0))"

definition augment_offset_fn3 ::
  "('s, 'i, real list, 'z) DnaSequenceGenerator_scheme \<Rightarrow> call_style \<Rightarrow> int
     \<Rightarrow> int \<times> int \<times> int \<Rightarrow> int result" where
  "augment_offset_fn3 g style sequence_len augment_index =
     (if augment g then compute_augmented_offset3 g sequence_len augment_index
      else (case style of Keyword \<Rightarrow> Inl TypeError | Positional \<Rightarrow> Inr 0))"

definition clip_sequence ::
  "('s, 'i, 'u, 'z) DnaSequenceGenerator_scheme \<Rightarrow> byte list \<Rightarrow> int \<Rightarrow> byte list" where
  "clip_sequence g sequence offset =
     py_slice sequence offset (offset + int (sequence_length g))"

subsection \<open>\<open>DnaSequenceGenerator.generate_batch\<close>\<close>

definition fetch_row ::
  "('s, int, real, 'z) DnaSequenceGenerator_scheme \<Rightarrow> int \<Rightarrow> int list \<Rightarrow> int list
     \<Rightarrow> nat \<Rightarrow> int list result" where
  "fetch_row g batch_index sample_row sequence_row i =
     bind (py_index sample_row (int i)) (\<lambda>si.
     bind (py_index (samples g) si) (\<lambda>sample.
     bind (py_index sequence_row (int i)) (\<lambda>qi.
     bind (lmdb_get sample (py_str qi)) (\<lambda>sequence.
     bind (augment_offset_fn g Keyword (int (length sequence)) (batch_index, int i)) (\<lambda>offset.
     assign_row (sequence_length g) (frombuffer (clip_sequence g sequence offset)))))))"

definition generate_batch ::
  "('s, int, real, 'z) DnaSequenceGenerator_scheme \<Rightarrow> int \<Rightarrow> (nat \<Rightarrow> int)
     \<Rightarrow> int list list result" where
  "generate_batch g batch_index junk =
     (let batch = np_empty2 (batch_size g) (sequence_length g) junk
      in bind (py_index (sample_indices g) batch_index) (\<lambda>sample_row.
         bind (py_index (sequence_indices g) batch_index) (\<lambda>sequence_row.
         for_each [0..<batch_size g]
           (\<lambda>i batch. bind (fetch_row g batch_index sample_row sequence_row i)
                         (\<lambda>row. Inr (batch[i := row])))
           batch)))"

subsection \<open>\<open>DnaSequenceGenerator.batch_to_kmers\<close>\<close>

definition kmer_row :: "nat \<Rightarrow> nat \<Rightarrow> int list \<Rightarrow> real list result" where
  "kmer_row k width sequence =
     bind (to_kmers k sequence) (\<lambda>codes. assign_row width (map real_of_int codes))"

definition batch_to_kmers ::
  "('s, 'i, 'u, 'z) DnaSequenceGenerator_scheme \<Rightarrow> int list list \<Rightarrow> (nat \<Rightarrow> real)
     \<Rightarrow> real list list result" where
  "batch_to_kmers g batch junk =
     (let width = int (sequence_length g) - int (kmer g) + 1
      in if width < 0 then Inl ValueError
         else for_each [0..<length batch]
                (\<lambda>i result. bind (kmer_row (kmer g) (nat width) (batch ! i))
                                (\<lambda>row. Inr (result[i := row])))
                (np_empty2 (length batch) (nat width) junk))"

subsection \<open>\<open>__getitem__\<close>, \<open>__len__\<close> and \<open>on_epoch_end\<close>\<close>

text \<open>
  \<open>post_process_batch\<close>: each of the four closures first encodes the batch (the argument
  \<open>features\<close> is that call's outcome) and then adds the labels of the mode.
\<close>

definition post_process_batch ::
  "('s, 'i, 'u, 'z) DnaSequenceGenerator_scheme \<Rightarrow> 'f result \<Rightarrow> 'b \<Rightarrow> int
     \<Rightarrow> ('f, 'b) batch_out result" where
  "post_process_batch g features batch batch_index =
     bind features (\<lambda>f.
       case labels g of
         Some SampleIds \<Rightarrow>
           bind (py_index (sample_indices g) batch_index) (\<lambda>ids. Inr (WithSampleIds f ids))
       | Some OneMer \<Rightarrow> Inr (WithOneMer f batch)
       | Some KMer \<Rightarrow> Inr (WithKMer f f)
       | None \<Rightarrow> Inr (Plain f))"

definition getitem ::
  "('s, int, real, 'z) DnaSequenceGenerator_scheme \<Rightarrow> int \<Rightarrow> (nat \<Rightarrow> int) \<Rightarrow> (nat \<Rightarrow> real)
     \<Rightarrow> (real list list, int list list) batch_out result" where
  "getitem g batch_index junk_i junk_f =
     bind (generate_batch g batch_index junk_i) (\<lambda>batch.
       post_process_batch g (batch_to_kmers g batch junk_f) batch batch_index)"

definition len :: "('s, 'i, 'u, 'z) DnaSequenceGenerator_scheme \<Rightarrow> nat" where
  "len g = batches_per_epoch g"

definition on_epoch_end ::
  "'s rng_ops \<Rightarrow> ('s, int, real, 'z) DnaSequenceGenerator_scheme
     \<Rightarrow> ('s, int, real, 'z) DnaSequenceGenerator_scheme result" where
  "on_epoch_end ops g = shuffle ops g"

section \<open>The sample generator\<close>

subsection \<open>\<open>DnaSampleGenerator.shuffle\<close>\<close>

text \<open>
  The two nested loops fill \<open>self.sequence_indices\<close> in place, slot by slot, with a draw
  without replacement from \<open>np.arange(lengths[i,j])\<close>; the table has element type
  \<open>int32\<close>, so each stored key is narrowed.  The loop state is the generator state and
  the table.
\<close>

definition draw_group ::
  "'s rng_ops \<Rightarrow> nat \<Rightarrow> int list list \<Rightarrow> nat \<Rightarrow> nat \<Rightarrow> 's \<times> int list list list
     \<Rightarrow> ('s \<times> int list list list) result" where
  "draw_group ops gsize lengths i j st =
     bind (choice ops (np_arange (lengths ! i ! j)) gsize (fst st)) (\<lambda>(keys, s').
     bind (assign_row gsize (map wrap32 keys)) (\<lambda>row.
     Inr (s', (snd st)[i := (snd st ! i)[j := row]])))"

definition sample_shuffle :: "'s rng_ops \<Rightarrow> 's DnaSampleGenerator \<Rightarrow> 's DnaSampleGenerator result" where
  "sample_shuffle ops g =
     (let r = batches_per_epoch g; c = batch_size g; gsize = subsample_length g
      in bind (integers ops (int (num_samples g)) (r * c) (rng g)) (\<lambda>(si, s1).
         let sidx = reshape2 r c si
         in bind (take_lengths (sample_lengths g) sidx) (\<lambda>lengths.
            bind (for_each [0..<r]
                    (\<lambda>i. for_each [0..<c] (\<lambda>j. draw_group ops gsize lengths i j))
                    (s1, sequence_indices g)) (\<lambda>(s2, qidx).
            let g' = g\<lparr>sample_indices := sidx, sequence_indices := qidx\<rparr>
            in if augment g
               then (let (os, s3) = uniform ops (r * c * gsize) s2
                     in Inr (g'\<lparr>rng := s3, augment_offsets := Some (reshape3 r c gsize os)\<rparr>))
               else Inr (g'\<lparr>rng := s2\<rparr>)))))"

subsection \<open>\<open>DnaSampleGenerator.__init__\<close>\<close>

text \<open>
  The sequence index table is allocated uninitialised before the base constructor runs;
  the base constructor's call of \<open>self.shuffle()\<close> is the overriding method.
\<close>

definition DnaSampleGenerator_init ::
  "'s rng_ops \<Rightarrow> archive list \<Rightarrow> nat \<Rightarrow> nat \<Rightarrow> nat \<Rightarrow> nat \<Rightarrow> nat \<Rightarrow> bool \<Rightarrow> bool
     \<Rightarrow> DnaLabelType option \<Rightarrow> 's \<Rightarrow> (nat \<Rightarrow> int) \<Rightarrow> 's DnaSampleGenerator result" where
  "DnaSampleGenerator_init ops archives gsize seq_len k bs bpe aug bal lbl seed junk =
     bind (init_sample_lengths archives bal) (\<lambda>lens.
       sample_shuffle ops
         \<lparr>samples = archives, sample_lengths = lens, num_samples = length archives,
          sequence_length = seq_len, kmer = k, augment = aug, batch_size = bs,
          batches_per_epoch = bpe, balance = bal, labels = lbl, rng = seed,
          sample_indices = [], sequence_indices = np_empty3 bpe bs gsize junk,
          augment_offsets = None, subsample_length = gsize\<rparr>)"

subsection \<open>\<open>DnaSampleGenerator.generate_batch\<close>\<close>

definition sample_fetch_row ::
  "'s DnaSampleGenerator \<Rightarrow> int \<Rightarrow> archive \<Rightarrow> int list list \<Rightarrow> nat \<Rightarrow> nat
     \<Rightarrow> int list result" where
  "sample_fetch_row g batch_index sample sequence_rows i j =
     bind (py_index sequence_rows (int i)) (\<lambda>keys.
     bind (py_index keys (int j)) (\<lambda>qi.
     bind (lmdb_get sample (py_str qi)) (\<lambda>sequence.
     bind (augment_offset_fn3 g Positional (int (length sequence)) (batch_index, int i, int j))
       (\<lambda>offset.
     assign_row (sequence_length g) (frombuffer (clip_sequence g sequence offset))))))"

definition sample_generate_batch ::
  "'s DnaSampleGenerator \<Rightarrow> int \<Rightarrow> (nat \<Rightarrow> int) \<Rightarrow> int list list list result" where
  "sample_generate_batch g batch_index junk =
     (let batch = np_empty3 (batch_size g) (subsample_length g) (sequence_length g) junk
      in bind (py_index (sample_indices g) batch_index) (\<lambda>sample_row.
         bind (py_index (sequence_indices g) batch_index) (\<lambda>sequence_rows.
         for_each [0..<batch_size g]
           (\<lambda>i batch.
              bind (py_index sample_row (int i)) (\<lambda>si.
              bind (py_index (samples g) si) (\<lambda>sample.
              for_each [0..<subsample_length g]
                (\<lambda>j batch. bind (sample_fetch_row g batch_index sample sequence_rows i j)
                              (\<lambda>row. Inr (batch[i := (batch ! i)[j := row]])))
                batch)))
           batch)))"

subsection \<open>\<open>DnaSampleGenerator.batch_to_kmers\<close> and \<open>__getitem__\<close>\<close>

definition sample_batch_to_kmers ::
  "'s DnaSampleGenerator \<Rightarrow> int list list list \<Rightarrow> (nat \<Rightarrow> real) \<Rightarrow> real list list list result" where
  "sample_batch_to_kmers g batch junk =
     (let width = int (sequence_length g) - int (kmer g) + 1
      in if width < 0 then Inl ValueError
         else for_each [0..<length batch]
                (\<lambda>i result. bind (batch_to_kmers g (batch ! i) junk) (\<lambda>block.
                              bind (assign_rows (subsample_length g) (nat width) block)
                                (\<lambda>rows. Inr (result[i := rows]))))
                (np_empty3 (length batch) (subsample_length g) (nat width) junk))"

definition sample_getitem ::
  "'s DnaSampleGenerator \<Rightarrow> int \<Rightarrow> (nat \<Rightarrow> int) \<Rightarrow> (nat \<Rightarrow> real)
     \<Rightarrow> (real list list list, int list list list) batch_out result" where
  "sample_getitem g batch_index junk_i junk_f =
     bind (sample_generate_batch g batch_index junk_i) (\<lambda>batch.
       post_process_batch g (sample_batch_to_kmers g batch junk_f) batch batch_index)"

definition sample_on_epoch_end ::
  "'s rng_ops \<Rightarrow> 's DnaSampleGenerator \<Rightarrow> 's DnaSampleGenerator result" where
  "sample_on_epoch_end ops g = sample_shuffle ops g"

section \<open>The standalone sampler \<open>random_subsamples\<close>\<close>

text \<open>
  Under \<open>balance\<close> the name \<open>sample_lengths\<close> is rebound to \<open>np.min(sample_lengths)\<close>, a
  NumPy scalar; indexing a scalar raises \<open>IndexError\<close>.  Without \<open>augment\<close> the name
  \<open>augments\<close> is bound to \<open>np.zeros_like\<close> of the shape tuple, a one-dimensional array of
  three zeros; indexing it with three indices raises \<open>IndexError\<close>.
\<close>

datatype lengths_value = LengthArray "int list" | LengthScalar int

datatype augments_value = Fractions "real list list list" | ShapeZeros "int list"

definition lengths_at :: "lengths_value \<Rightarrow> nat \<Rightarrow> int result" where
  "lengths_at v i = (case v of LengthArray xs \<Rightarrow> py_index xs (int i) | LengthScalar _ \<Rightarrow> Inl IndexError)"

definition augments_at :: "augments_value \<Rightarrow> nat \<Rightarrow> nat \<Rightarrow> nat \<Rightarrow> real result" where
  "augments_at v i j k =
     (case v of
        Fractions tbl \<Rightarrow>
          bind (py_index tbl (int i)) (\<lambda>plane.
          bind (py_index plane (int j)) (\<lambda>row. py_index row (int k)))
      | ShapeZeros _ \<Rightarrow> Inl IndexError)"

text \<open>
  The loop state is the generator state and the result array (of \<open>float64\<close>).  The inner
  loop enumerates the drawn keys.
\<close>

definition subsample_row ::
  "nat \<Rightarrow> augments_value \<Rightarrow> archive \<Rightarrow> int list \<Rightarrow> nat \<Rightarrow> nat \<Rightarrow> nat \<Rightarrow> real list result" where
  "subsample_row seq_len augments sample indices i j k =
     bind (lmdb_get sample (py_str (indices ! k))) (\<lambda>sequence.
     bind (augments_at augments i j k) (\<lambda>u.
     let offset = py_int (u * real_of_int (int (length sequence) - int seq_len + 1))
     in assign_row seq_len
          (map real_of_int (frombuffer (py_slice sequence offset (int seq_len + offset))))))"

definition random_subsamples ::
  "'s rng_ops \<Rightarrow> archive list \<Rightarrow> nat \<Rightarrow> nat \<Rightarrow> nat \<Rightarrow> bool \<Rightarrow> bool \<Rightarrow> 's \<Rightarrow> (nat \<Rightarrow> real)
     \<Rightarrow> real list list list list result" where
  "random_subsamples ops archives seq_len subsample_size subsamples_per_sample aug bal seed junk =
     (let n = length archives;
          lens = map lmdb_len archives
      in bind (if bal then bind (np_min lens) (\<lambda>m. Inr (LengthScalar m))
               else Inr (LengthArray lens)) (\<lambda>sample_lengths.
         let result = map (\<lambda>_. np_empty3 subsamples_per_sample subsample_size seq_len junk) [0..<n];
             (augments, s1) =
               (if aug
                then (let (us, s') = uniform ops (n * subsamples_per_sample * subsample_size) seed
                      in (Fractions (reshape3 n subsamples_per_sample subsample_size us), s'))
                else (ShapeZeros [0, 0, 0], seed))
         in bind (for_each [0..<n]
                   (\<lambda>i st.
                      bind (lengths_at sample_lengths i) (\<lambda>len_i.
                      let all_indices = np_arange len_i
                      in for_each [0..<subsamples_per_sample]
                           (\<lambda>j st.
                              bind (choice ops all_indices subsample_size (fst st)) (\<lambda>(indices, s').
                              for_each [0..<length indices]
                                (\<lambda>k st.
                                   bind (subsample_row seq_len augments (archives ! i) indices i j k)
                                     (\<lambda>row. Inr (fst st,
                                        (snd st)[i := (snd st ! i)[j := (snd st ! i ! j)[k := row]]])))
                                (s', snd st)))
                           st))
                   (s1, result))
              (\<lambda>st. Inr (snd st))))"

section \<open>A generator over several epochs\<close>

text \<open>
  The training loop calls \<open>on_epoch_end\<close> after every epoch.  \<open>epochs ops n g\<close> is the
  generator after \<open>n\<close> such calls; \<open>batch_at\<close> is what a freshly constructed generator
  returns for batch \<open>b\<close> of its epoch number \<open>e\<close>, counted from \<open>0\<close>.
\<close>

primrec epochs ::
  "'s rng_ops \<Rightarrow> nat \<Rightarrow> ('s, int, real, 'z) DnaSequenceGenerator_scheme
     \<Rightarrow> ('s, int, real, 'z) DnaSequenceGenerator_scheme result" where
  "epochs ops 0 g = Inr g"
| "epochs ops (Suc n) g = bind (on_epoch_end ops g) (epochs ops n)"

primrec sample_epochs ::
  "'s rng_ops \<Rightarrow> nat \<Rightarrow> 's DnaSampleGenerator \<Rightarrow> 's DnaSampleGenerator result" where
  "sample_epochs ops 0 g = Inr g"
| "sample_epochs ops (Suc n) g = bind (sample_on_epoch_end ops g) (sample_epochs ops n)"

definition batch_at ::
  "'s rng_ops \<Rightarrow> archive list \<Rightarrow> nat \<Rightarrow> nat \<Rightarrow> nat \<Rightarrow> nat \<Rightarrow> bool \<Rightarrow> bool
     \<Rightarrow> DnaLabelType option \<Rightarrow> 's \<Rightarrow> nat \<Rightarrow> int \<Rightarrow> (nat \<Rightarrow> int) \<Rightarrow> (nat \<Rightarrow> real)
     \<Rightarrow> (real list list, int list list) batch_out result" where
  "batch_at ops archives seq_len k bs bpe aug bal lbl seed e b junk_i junk_f =
     bind (DnaSequenceGenerator_init ops archives seq_len k bs bpe aug bal lbl seed) (\<lambda>g0.
     bind (epochs ops e g0) (\<lambda>g. getitem g b junk_i junk_f))"

definition sample_batch_at ::
  "'s rng_ops \<Rightarrow> archive list \<Rightarrow> nat \<Rightarrow> nat \<Rightarrow> nat \<Rightarrow> nat \<Rightarrow> nat \<Rightarrow> bool \<Rightarrow> bool
     \<Rightarrow> DnaLabelType option \<Rightarrow> 's \<Rightarrow> nat \<Rightarrow> int \<Rightarrow> (nat \<Rightarrow> int) \<Rightarrow> (nat \<Rightarrow> int)
     \<Rightarrow> (nat \<Rightarrow> real) \<Rightarrow> (real list list list, int list list list) batch_out result" where
  "sample_batch_at ops archives gsize seq_len k bs bpe aug bal lbl seed e b junk_0 junk_i junk_f =
     bind (DnaSampleGenerator_init ops archives gsize seq_len k bs bpe aug bal lbl seed junk_0)
       (\<lambda>g0.
     bind (sample_epochs ops e g0) (\<lambda>g. sample_getitem g b junk_i junk_f))"

section \<open>Auxiliary definitions for the proofs\<close>

text \<open>The exact powers of five from exponent \<open>i\<close> on, \<open>n\<close> of them.\<close>

definition pow5 :: "nat \<Rightarrow> nat \<Rightarrow> int list" where
  "pow5 i n = map (\<lambda>j. 5 ^ j) [i..<i + n]"

text \<open>
  A small deterministic generator for the concrete instances below: its state is a counter,
  integers and fractions cycle through their range, and a draw without replacement takes the
  last elements of the population.
\<close>

definition demo_rng :: "nat rng_ops" where
  "demo_rng =
     \<lparr>integers = (\<lambda>high n s.
         if high \<le> 0 then Inl ValueError
         else Inr (map (\<lambda>i. int ((s + i) mod nat high)) [0..<n], s + n)),
      uniform = (\<lambda>n s. (map (\<lambda>i. real ((s + i) mod 4) / 4) [0..<n], s + n)),
      choice = (\<lambda>pop k s.
         if length pop < k then Inl ValueError
         else Inr (map (\<lambda>i. pop ! (length pop - 1 - i)) [0..<k], s + 1))\<rparr>"

definition demo_archive :: archive where
  "demo_archive =
     [(''0'', [0, 1, 2, 3, 4, 1]), (''1'', [3, 3, 3, 3, 3]), (''2'', [4, 3, 2, 1])]"

definition zero_junk :: "nat \<Rightarrow> int" where
  "zero_junk = (\<lambda>_. 0)"

definition zero_junk_f :: "nat \<Rightarrow> real" where
  "zero_junk_f = (\<lambda>_. 0)"

text \<open>
  A traversal that threads a state through a list of actions and collects their results:
  the closed form of a loop that fills an array slot by slot.
\<close>

primrec collect_st :: "('i \<Rightarrow> 's \<Rightarrow> ('b \<times> 's) result) \<Rightarrow> 'i list \<Rightarrow> 's \<Rightarrow> ('b list \<times> 's) result" where
  "collect_st h [] s = Inr ([], s)"
| "collect_st h (i # is) s =
     (case h i s of Inl e \<Rightarrow> Inl e
      | Inr (y, s') \<Rightarrow>
          (case collect_st h is s' of Inl e \<Rightarrow> Inl e | Inr (ys, s'') \<Rightarrow> Inr (y # ys, s'')))"

text \<open>One slot of the sample generator's shuffle: the narrowed keys and the next state.\<close>

definition draw_keys ::
  "'s rng_ops \<Rightarrow> nat \<Rightarrow> int list list \<Rightarrow> nat \<Rightarrow> nat \<Rightarrow> 's \<Rightarrow> (int list \<times> 's) result" where
  "draw_keys ops gsize lengths i j s =
     bind (choice ops (np_arange (lengths ! i ! j)) gsize s) (\<lambda>(keys, s').
     bind (assign_row gsize (map wrap32 keys)) (\<lambda>row. Inr (row, s')))"

text \<open>
  Two concrete generators over two copies of the demo archive, with window length \<open>3\<close>,
  \<open>k = 2\<close>, batches of two slots and two batches per epoch: a sequence generator with
  augmentation and a sample generator with groups of two, balanced and without
  augmentation.  They are what the constructors return for the demo generator state \<open>0\<close>.
\<close>

definition demo_generator :: "(nat, int, real) DnaSequenceGenerator" where
  "demo_generator =
     \<lparr>samples = [demo_archive, demo_archive], sample_lengths = [3, 3], num_samples = 2,
      sequence_length = 3, kmer = 2, augment = True, batch_size = 2, batches_per_epoch = 2,
      balance = False, labels = None, rng = 12,
      sample_indices = [[0, 1], [0, 1]], sequence_indices = [[0, 0], [1, 2]],
      augment_offsets = Some [[0, 1 / 4], [1 / 2, 3 / 4]]\<rparr>"

definition demo_sample_generator :: "nat DnaSampleGenerator" where
  "demo_sample_generator =
     \<lparr>samples = [demo_archive, demo_archive], sample_lengths = [3, 3], num_samples = 2,
      sequence_length = 3, kmer = 2, augment = False, batch_size = 2, batches_per_epoch = 2,
      balance = True, labels = Some SampleIds, rng = 8,
      sample_indices = [[0, 1], [0, 1]],
      sequence_indices = [[[2, 1], [2, 1]], [[2, 1], [2, 1]]],
      augment_offsets = None, subsample_length = 2\<rparr>"

text \<open>The shape of a two- and of a three-dimensional array.\<close>

definition shape2 :: "nat \<Rightarrow> nat \<Rightarrow> 'a list list \<Rightarrow> bool" where
  "shape2 r c t \<longleftrightarrow> length t = r \<and> (\<forall>row\<in>set t. length row = c)"

definition shape3 :: "nat \<Rightarrow> nat \<Rightarrow> nat \<Rightarrow> 'a list list list \<Rightarrow> bool" where
  "shape3 r c g t \<longleftrightarrow> length t = r \<and> (\<forall>p\<in>set t. shape2 c g p)"

text \<open>
  Two generator objects with the same configuration: all attributes but the tables and
  the random generator agree.
\<close>

definition same_config ::
  "('s, 'i, 'u, 'z) DnaSequenceGenerator_scheme \<Rightarrow> ('s, 'i, 'u, 'z) DnaSequenceGenerator_scheme
     \<Rightarrow> bool" where
  "same_config g g' \<longleftrightarrow>
     samples g' = samples g \<and> sample_lengths g' = sample_lengths g \<and>
     num_samples g' = num_samples g \<and> sequence_length g' = sequence_length g \<and>
     kmer g' = kmer g \<and> augment g' = augment g \<and> batch_size g' = batch_size g \<and>
     batches_per_epoch g' = batches_per_epoch g \<and> balance g' = balance g \<and>
     labels g' = labels g \<and> DnaSequenceGenerator.more g' = DnaSequenceGenerator.more g"

text \<open>
  The state \<open>Ready\<close> of a sequence generator: the three tables of the epoch are there, with
  one entry per batch slot, archive indices that exist, keys drawn as a fraction of an
  effective length, and fractions in \<open>[0,1)\<close>.
\<close>

definition fractions_ok :: "nat \<Rightarrow> nat \<Rightarrow> real list list option \<Rightarrow> bool" where
  "fractions_ok r c t \<longleftrightarrow>
     (\<exists>tbl. t = Some tbl \<and> shape2 r c tbl \<and> (\<forall>row\<in>set tbl. \<forall>u\<in>set row. 0 \<le> u \<and> u < 1))"

definition sample_indices_ok :: "('s, 'i, 'u, 'z) DnaSequenceGenerator_scheme \<Rightarrow> bool" where
  "sample_indices_ok g \<longleftrightarrow>
     num_samples g = length (samples g) \<and>
     shape2 (batches_per_epoch g) (batch_size g) (sample_indices g) \<and>
     (\<forall>row\<in>set (sample_indices g). \<forall>x\<in>set row. 0 \<le> x \<and> x < int (length (samples g)))"

definition ready :: "('s, int, real, 'z) DnaSequenceGenerator_scheme \<Rightarrow> bool" where
  "ready g \<longleftrightarrow>
     sample_indices_ok g \<and>
     shape2 (batches_per_epoch g) (batch_size g) (sequence_indices g) \<and>
     (\<forall>row\<in>set (sequence_indices g). \<forall>q\<in>set row.
        \<exists>l\<in>set (sample_lengths g). \<exists>u. 0 \<le> u \<and> u < 1 \<and> q = py_int (real_of_int l * u)) \<and>
     (augment g \<longrightarrow> fractions_ok (batches_per_epoch g) (batch_size g) (augment_offsets g))"

text \<open>
  The state \<open>Ready\<close> of a sample generator.  Every slot \<open>(b, i)\<close> holds the narrowed image
  of distinct keys below the effective length of the slot's archive.
\<close>

definition fractions3_ok :: "nat \<Rightarrow> nat \<Rightarrow> nat \<Rightarrow> real list list list option \<Rightarrow> bool" where
  "fractions3_ok r c g t \<longleftrightarrow>
     (\<exists>tbl. t = Some tbl \<and> shape3 r c g tbl \<and>
        (\<forall>p\<in>set tbl. \<forall>row\<in>set p. \<forall>u\<in>set row. 0 \<le> u \<and> u < 1))"

definition slot_drawn :: "'s DnaSampleGenerator \<Rightarrow> nat \<Rightarrow> nat \<Rightarrow> bool" where
  "slot_drawn g b i \<longleftrightarrow>
     (\<exists>n keys. py_index (sample_lengths g) (sample_indices g ! b ! i) = Inr n \<and>
        distinct keys \<and> set keys \<subseteq> {0..<n} \<and>
        sequence_indices g ! b ! i = map wrap32 keys)"

definition sample_ready :: "'s DnaSampleGenerator \<Rightarrow> bool" where
  "sample_ready g \<longleftrightarrow>
     sample_indices_ok g \<and>
     shape3 (batches_per_epoch g) (batch_size g) (subsample_length g) (sequence_indices g) \<and>
     (\<forall>b<batches_per_epoch g. \<forall>i<batch_size g. slot_drawn g b i) \<and>
     (augment g \<longrightarrow>
        fractions3_ok (batches_per_epoch g) (batch_size g) (subsample_length g) (augment_offsets g))"

text \<open>
  A balanced sequence generator without augmentation over the same archives, and a sample
  generator over one archive of \<open>2^31 + 1\<close> sequences, with one slot and groups of one.
\<close>

definition demo_plain_generator :: "(nat, int, real) DnaSequenceGenerator" where
  "demo_plain_generator =
     \<lparr>samples = [demo_archive, demo_archive], sample_lengths = [3, 3], num_samples = 2,
      sequence_length = 3, kmer = 2, augment = False, batch_size = 2, batches_per_epoch = 2,
      balance = True, labels = Some SampleIds, rng = 8,
      sample_indices = [[0, 1], [0, 1]], sequence_indices = [[0, 0], [1, 2]],
      augment_offsets = None\<rparr>"



text \<open>An archive of five sequences, longer than the demo archive.\<close>

definition long_archive :: archive where
  "long_archive =
     [(''0'', [1, 1, 1, 1]), (''1'', [2, 2, 2]), (''2'', [0, 1, 0, 1, 0]), (''3'', [4, 4, 4]),
      (''4'', [3, 2, 1, 0])]"

text \<open>
  Balanced generators over the long and the demo archive, as the constructors return them
  for the demo generator state \<open>0\<close>, and a balanced sequence generator over the demo
  archive and an empty archive.
\<close>

definition balanced_generator :: "(nat, int, real) DnaSequenceGenerator" where
  "balanced_generator =
     \<lparr>samples = [long_archive, demo_archive], sample_lengths = [3, 3], num_samples = 2,
      sequence_length = 3, kmer = 2, augment = False, batch_size = 2, batches_per_epoch = 2,
      balance = True, labels = None, rng = 8,
      sample_indices = [[0, 1], [0, 1]], sequence_indices = [[0, 0], [1, 2]],
      augment_offsets = None\<rparr>"

definition balanced_sample_generator :: "nat DnaSampleGenerator" where
  "balanced_sample_generator =
     \<lparr>samples = [long_archive, demo_archive], sample_lengths = [3, 3], num_samples = 2,
      sequence_length = 3, kmer = 2, augment = True, batch_size = 2, batches_per_epoch = 2,
      balance = True, labels = None, rng = 16,
      sample_indices = [[0, 1], [0, 1]],
      sequence_indices = [[[2, 1], [2, 1]], [[2, 1], [2, 1]]],
      augment_offsets = Some [[[0, 1 / 4], [1 / 2, 3 / 4]], [[0, 1 / 4], [1 / 2, 3 / 4]]],
      subsample_length = 2\<rparr>"

definition empty_archive_generator :: "(nat, int, real) DnaSequenceGenerator" where
  "empty_archive_generator =
     \<lparr>samples = [demo_archive, []], sample_lengths = [0, 0], num_samples = 2,
      sequence_length = 3, kmer = 2, augment = False, batch_size = 2, batches_per_epoch = 1,
      balance = True, labels = None, rng = 4,
      sample_indices = [[0, 1]], sequence_indices = [[0, 0]],
      augment_offsets = None\<rparr>"

section \<open>Properties of the k-mer encoder\<close>

lemma wrap64_id: "- (2 ^ 63) \<le> x \<Longrightarrow> x < 2 ^ 63 \<Longrightarrow> wrap64 x = x"
  by (simp add: wrap64_def)

lemma pow5_27: "j \<le> 27 \<Longrightarrow> (5::int) ^ j < 2 ^ 63"
proof -
  assume "j \<le> 27"
  then have "(5::int) ^ j \<le> 5 ^ 27" by (intro power_increasing) simp_all
  also have "(5::int) ^ 27 < 2 ^ 63" by simp
  finally show ?thesis .
qed

lemma wrap64_pow5: "j \<le> 27 \<Longrightarrow> wrap64 (5 ^ j) = 5 ^ j"
proof -
  assume a: "j \<le> 27"
  have "- (2 ^ 63) \<le> (0::int)" by simp
  also have "(0::int) \<le> 5 ^ j" by simp
  finally show ?thesis using pow5_27[OF a] by (rule wrap64_id)
qed

lemma kmer_kernel_pow5: "k \<le> 27 \<Longrightarrow> kmer_kernel k = pow5 0 k"
  unfolding kmer_kernel_def pow5_def
  by (rule map_cong) (simp_all add: wrap64_pow5)

lemma pow5_Suc: "pow5 i (Suc n) = 5 ^ i # pow5 (Suc i) n"
  by (simp add: pow5_def upt_conv_Cons)

lemma pow5_length [simp]: "length (pow5 i n) = n"
  by (simp add: pow5_def)

lemma take_drop_pow5: "i + n \<le> k \<Longrightarrow> take n (drop i (pow5 0 k)) = pow5 i n"
  by (simp add: pow5_def take_map drop_map drop_upt take_upt)

text \<open>
  A base-five numeral with digits \<open>ds\<close>, lowest digit at weight \<open>5 ^ i\<close>, stays below
  \<open>5 ^ (i + length ds)\<close>.
\<close>

lemma digits_bound:
  "\<forall>d\<in>set ds. 0 \<le> d \<and> d < 5 \<Longrightarrow>
   0 \<le> sum_list (map2 (*) (pow5 i (length ds)) ds) \<and>
   sum_list (map2 (*) (pow5 i (length ds)) ds) + 5 ^ i \<le> 5 ^ (i + length ds)"
proof (induction ds arbitrary: i)
  case Nil
  then show ?case by (simp add: pow5_def)
next
  case (Cons d ds)
  define S where "S = sum_list (map2 (*) (pow5 (Suc i) (length ds)) ds)"
  define p where "p = (5::int) ^ i"
  define q where "q = (5::int) ^ (Suc i + length ds)"
  have ih: "0 \<le> S \<and> S + 5 ^ Suc i \<le> q"
    unfolding S_def q_def by (rule Cons.IH) (use Cons.prems in simp)
  have g: "0 \<le> S" "S + 5 * p \<le> q" using ih by (simp_all add: p_def)
  have d: "0 \<le> d" "d \<le> 4" using Cons.prems by auto
  have p: "0 \<le> p" by (simp add: p_def)
  have m1: "0 \<le> p * d" using d p by (rule_tac mult_nonneg_nonneg)
  have m2: "p * d \<le> p * 4" using d p by (rule_tac mult_left_mono)
  have e: "sum_list (map2 (*) (pow5 i (length (d # ds))) (d # ds)) = p * d + S"
    by (simp add: pow5_Suc S_def p_def)
  have f: "(5::int) ^ (i + length (d # ds)) = q" by (simp add: q_def)
  have "0 \<le> p * d + S \<and> p * d + S + p \<le> q" using g m1 m2 by linarith
  then show ?case unfolding e f p_def[symmetric] .
qed

lemma wsum_rev:
  "length xs = length ys \<Longrightarrow>
   sum_list (map2 (*) xs (rev ys)) = sum_list (map2 (*) ys (rev xs :: int list))"
proof -
  assume l: "length xs = length ys"
  have "zip xs (rev ys) = rev (zip (rev xs) ys)"
    using zip_rev[of "rev xs" ys] l by simp
  then have "sum_list (map2 (*) xs (rev ys)) = sum_list (map2 (*) (rev xs) ys)"
    by (simp add: rev_map[symmetric] del: rev_map)
  also have "map2 (*) (rev xs) ys = map2 (*) ys (rev xs)"
    using l by (intro nth_equalityI) (simp_all add: mult.commute)
  finally show ?thesis .
qed

lemma slice_dot_bound:
  assumes "length xs = k" "\<forall>d\<in>set xs. 0 \<le> d \<and> d < 5"
  shows "0 \<le> sum_list (map2 (*) xs (rev (pow5 0 k))) \<and>
         sum_list (map2 (*) xs (rev (pow5 0 k))) < 5 ^ k"
proof -
  have "sum_list (map2 (*) xs (rev (pow5 0 k))) = sum_list (map2 (*) (pow5 0 (length (rev xs))) (rev xs))"
    using assms(1) by (simp add: wsum_rev)
  moreover have "0 \<le> sum_list (map2 (*) (pow5 0 (length (rev xs))) (rev xs)) \<and>
     sum_list (map2 (*) (pow5 0 (length (rev xs))) (rev xs)) + 5 ^ 0 \<le> 5 ^ (0 + length (rev xs))"
    by (rule digits_bound) (use assms(2) in simp)
  ultimately show ?thesis using assms(1) by simp
qed

lemma slice_dot_formula:
  assumes "length xs = k"
  shows "sum_list (map2 (*) xs (rev (pow5 0 k))) = (\<Sum>j<k. 5 ^ (k - 1 - j) * xs ! j)"
proof -
  have "sum_list (map2 (*) xs (rev (pow5 0 k))) = (\<Sum>j = 0..<k. map2 (*) xs (rev (pow5 0 k)) ! j)"
    using assms by (simp add: sum_list_sum_nth)
  also have "\<dots> = (\<Sum>j = 0..<k. 5 ^ (k - 1 - j) * xs ! j)"
    using assms by (intro sum.cong) (simp_all add: rev_nth pow5_def mult.commute)
  finally show ?thesis by (simp add: lessThan_atLeast0)
qed

lemma wrap64_digit_range: "k \<le> 27 \<Longrightarrow> 0 \<le> x \<Longrightarrow> x < 5 ^ k \<Longrightarrow> wrap64 x = x"
proof -
  assume a: "k \<le> 27" "0 \<le> x" "x < 5 ^ k"
  have "x < 2 ^ 63" using a(3) pow5_27[OF a(1)] by linarith
  moreover have "- (2 ^ 63) \<le> x" using a(2) by simp
  ultimately show ?thesis by (rule_tac wrap64_id)
qed

lemma to_kmers_long:
  assumes "2 \<le> k" "k \<le> length w"
  shows "to_kmers k w = Inr (correlate_valid w (rev (kmer_kernel k)))"
proof -
  have "w \<noteq> []" "kmer_kernel k \<noteq> []" using assms by (auto simp: kmer_kernel_def)
  then show ?thesis using assms
    by (simp add: to_kmers_def np_convolve_valid_def kmer_kernel_def)
qed

lemma to_kmers_short:
  assumes "2 \<le> k" "length w < k"
  shows "to_kmers k w = (if w = [] then Inl ValueError else Inr (correlate_valid (kmer_kernel k) (rev w)))"
proof -
  have "kmer_kernel k \<noteq> []" using assms by (auto simp: kmer_kernel_def)
  then show ?thesis using assms
    by (simp add: to_kmers_def np_convolve_valid_def kmer_kernel_def)
qed

lemma correlate_valid_nth:
  assumes "i < length a - length v + 1"
  shows "correlate_valid a v ! i = dot64 (take (length v) (drop i a)) v"
proof -
  define n where "n = length a - length v + 1"
  have i: "i < n" using assms by (simp add: n_def)
  have "map (\<lambda>i. dot64 (take (length v) (drop i a)) v) [0..<n] ! i
      = dot64 (take (length v) (drop ([0..<n] ! i) a)) v"
    by (rule nth_map) (use i in simp)
  moreover have "[0..<n] ! i = i" using i by simp
  ultimately show ?thesis unfolding correlate_valid_def n_def[symmetric] by simp
qed

lemma correlate_valid_length [simp]:
  "length (correlate_valid a v) = length a - length v + 1"
  by (simp add: correlate_valid_def)

lemma kmer_kernel_length [simp]: "length (kmer_kernel k) = k"
  by (simp add: kmer_kernel_def)

lemma correlate_long_nth:
  assumes "k \<le> 27" "k \<le> length w" "i < length w - k + 1" "\<forall>c\<in>set w. 0 \<le> c \<and> c < 5"
  shows "correlate_valid w (rev (kmer_kernel k)) ! i = (\<Sum>j<k. 5 ^ (k - 1 - j) * w ! (i + j))"
    and "0 \<le> correlate_valid w (rev (kmer_kernel k)) ! i"
    and "correlate_valid w (rev (kmer_kernel k)) ! i < 5 ^ k"
proof -
  define xs where "xs = take k (drop i w)"
  have lx: "length xs = k" using assms(2,3) by (simp add: xs_def)
  have dx: "\<forall>d\<in>set xs. 0 \<le> d \<and> d < 5"
    using assms(4) by (auto simp: xs_def dest!: in_set_takeD in_set_dropD)
  define S where "S = sum_list (map2 (*) xs (rev (pow5 0 k)))"
  have b: "0 \<le> S \<and> S < 5 ^ k" unfolding S_def using lx dx by (rule slice_dot_bound)
  have e: "correlate_valid w (rev (kmer_kernel k)) ! i = wrap64 S"
    using assms(1,2,3) by (simp add: correlate_valid_nth kmer_kernel_pow5 dot64_def xs_def S_def)
  have w: "wrap64 S = S" using assms(1) b by (auto intro: wrap64_digit_range)
  have "S = (\<Sum>j<k. 5 ^ (k - 1 - j) * xs ! j)" unfolding S_def using lx by (rule slice_dot_formula)
  also have "\<dots> = (\<Sum>j<k. 5 ^ (k - 1 - j) * w ! (i + j))"
    using assms(2,3) by (intro sum.cong) (simp_all add: xs_def)
  finally have f: "S = (\<Sum>j<k. 5 ^ (k - 1 - j) * w ! (i + j))" .
  show "correlate_valid w (rev (kmer_kernel k)) ! i = (\<Sum>j<k. 5 ^ (k - 1 - j) * w ! (i + j))"
    using e w f by simp
  show "0 \<le> correlate_valid w (rev (kmer_kernel k)) ! i" using e w b by simp
  show "correlate_valid w (rev (kmer_kernel k)) ! i < 5 ^ k" using e w b by simp
qed

lemma correlate_short_nth:
  assumes "k \<le> 27" "length w \<le> k" "i < k - length w + 1" "\<forall>c\<in>set w. 0 \<le> c \<and> c < 5"
  shows "0 \<le> correlate_valid (kmer_kernel k) (rev w) ! i \<and>
         correlate_valid (kmer_kernel k) (rev w) ! i < 5 ^ k"
proof -
  define S where "S = sum_list (map2 (*) (pow5 i (length (rev w))) (rev w))"
  have b: "0 \<le> S \<and> S + 5 ^ i \<le> 5 ^ (i + length (rev w))"
    unfolding S_def by (rule digits_bound) (use assms(4) in simp)
  have "(5::int) ^ (i + length (rev w)) \<le> 5 ^ k"
    using assms(2,3) by (intro power_increasing) simp_all
  moreover have "(0::int) < 5 ^ i" by simp
  ultimately have r: "0 \<le> S" "S < 5 ^ k" using b by linarith+
  have "i + length w \<le> k" using assms(2,3) by simp
  then have e: "correlate_valid (kmer_kernel k) (rev w) ! i = wrap64 S"
    using assms(1,2,3) by (simp add: correlate_valid_nth kmer_kernel_pow5 dot64_def S_def take_drop_pow5)
  have "wrap64 S = S" using assms(1) r by (rule wrap64_digit_range)
  then show ?thesis using e r by simp
qed

text \<open>
  C1 (as amended).  For \<open>2 \<le> k \<le> 27\<close> and a window of base codes in \<open>[0,5)\<close>, every
  output of the k-mer encoder lies in \<open>[0, 5^k)\<close>; when the window holds at least \<open>k\<close>
  codes, output position \<open>i\<close> is the weighted sum of the slice starting at \<open>i\<close> in which
  the \<open>j\<close>-th code of the slice carries the weight \<open>5^(k-1-j)\<close>: the first code of a slice
  is the most significant digit.
\<close>

theorem to_kmers_positional:
  assumes "2 \<le> k" "k \<le> 27" "\<forall>c\<in>set w. 0 \<le> c \<and> c < 5"
  shows "(\<forall>out. to_kmers k w = Inr out \<longrightarrow> (\<forall>v\<in>set out. 0 \<le> v \<and> v < 5 ^ k)) \<and>
         (k \<le> length w \<longrightarrow>
            (\<exists>out. to_kmers k w = Inr out \<and> length out = length w - k + 1 \<and>
               (\<forall>i<length out. out ! i = (\<Sum>j<k. 5 ^ (k - 1 - j) * w ! (i + j)))))"
proof (intro conjI allI impI)
  fix out assume o: "to_kmers k w = Inr out"
  show "\<forall>v\<in>set out. 0 \<le> v \<and> v < 5 ^ k"
  proof (cases "k \<le> length w")
    case True
    then have e: "out = correlate_valid w (rev (kmer_kernel k))"
      using o to_kmers_long[OF assms(1)] by simp
    show ?thesis unfolding e all_set_conv_all_nth
      using correlate_long_nth(2,3)[OF assms(2) True _ assms(3)] by simp
  next
    case False
    then have l: "length w \<le> k" "length w < k" by simp_all
    have e: "out = correlate_valid (kmer_kernel k) (rev w)"
      using o to_kmers_short[OF assms(1) l(2)] by (simp split: if_splits)
    show ?thesis unfolding e all_set_conv_all_nth
      using correlate_short_nth[OF assms(2) l(1) _ assms(3)] by simp
  qed
next
  assume l: "k \<le> length w"
  show "\<exists>out. to_kmers k w = Inr out \<and> length out = length w - k + 1 \<and>
               (\<forall>i<length out. out ! i = (\<Sum>j<k. 5 ^ (k - 1 - j) * w ! (i + j)))"
    using to_kmers_long[OF assms(1) l] correlate_long_nth(1)[OF assms(2) l _ assms(3)] by simp
qed

theorem to_kmers_positional_witness:
  "(2::nat) \<le> 2 \<and> (2::nat) \<le> 27 \<and> list_all (\<lambda>c. 0 \<le> c \<and> c < 5) [1, 0, 3 :: int] \<and>
   (\<exists>out. to_kmers 2 [1, 0, 3] = Inr out \<and> length out = length [1, 0, 3 :: int] - 2 + 1 \<and>
      (\<forall>v\<in>set out. 0 \<le> v \<and> v < 5 ^ 2) \<and>
      (\<forall>i<length out. out ! i = (\<Sum>j<2. 5 ^ (2 - 1 - j) * [1, 0, 3] ! (i + j))))"
proof -
  have h: "(2::nat) \<le> 2" "(2::nat) \<le> 27" "\<forall>c\<in>set [1, 0, 3 :: int]. 0 \<le> c \<and> c < 5"
    by simp_all
  have l: "2 \<le> length [1, 0, 3 :: int]" by simp
  note t = to_kmers_positional[OF h]
  from t l obtain out where o: "to_kmers 2 [1, 0, 3] = Inr out"
      "length out = length [1, 0, 3 :: int] - 2 + 1"
      "\<forall>i<length out. out ! i = (\<Sum>j<2. 5 ^ (2 - 1 - j) * [1, 0, 3] ! (i + j))"
    by blast
  from t o(1) have r: "\<forall>v\<in>set out. 0 \<le> v \<and> v < 5 ^ 2" by blast
  have "list_all (\<lambda>c. 0 \<le> c \<and> c < 5) [1, 0, 3 :: int]" by simp
  then show ?thesis using h(1,2) o r by blast
qed

text \<open>
  The claim as stated fails twice.  On the window \<open>[1, 0]\<close> with \<open>k = 2\<close>, weight \<open>5^j\<close> on
  the \<open>j\<close>-th code gives \<open>1 * 5^0 + 0 * 5^1 = 1\<close>, but the encoder returns \<open>5\<close>.  On the
  window of twenty-eight codes \<open>4\<close> with \<open>k = 28\<close> every weighting of the slice gives
  \<open>5^28 - 1\<close>, which does not fit \<open>int64\<close>; the encoder returns the wrapped value.
\<close>

theorem to_kmers_forward_weights_counterexample:
  "to_kmers 2 [1, 0] = Inr [5] \<and> (1 * 5 ^ 0 + 0 * 5 ^ 1 = (1::int)) \<and>
   to_kmers 28 (replicate 28 4) = Inr [359414837200037392] \<and>
   (359414837200037392 \<noteq> (5::int) ^ 28 - 1)"
proof -
  have a: "to_kmers 2 [1, 0] = Inr [5]" by code_simp
  have b: "to_kmers 28 (replicate 28 4) = Inr [359414837200037392]" by code_simp
  show ?thesis using a b by simp
qed

section \<open>Results, indexing and loops\<close>

lemma bind_Inl [simp]: "bind (Inl e) f = Inl e"
  by (simp add: bind_def)

lemma bind_Inr [simp]: "bind (Inr x) f = f x"
  by (simp add: bind_def)

lemma bind_eq_Inr: "bind m f = Inr y \<longleftrightarrow> (\<exists>x. m = Inr x \<and> f x = Inr y)"
  by (cases m) simp_all

lemma bind_eq_Inl: "bind m f = Inl e \<longleftrightarrow> m = Inl e \<or> (\<exists>x. m = Inr x \<and> f x = Inl e)"
  by (cases m) simp_all

lemma bind_cong_result:
  "m = m' \<Longrightarrow> (\<And>x. m' = Inr x \<Longrightarrow> f x = f' x) \<Longrightarrow> bind m f = bind m' f'"
  by (cases m') simp_all

lemma py_index_nonneg: "0 \<le> i \<Longrightarrow> i < int (length xs) \<Longrightarrow> py_index xs i = Inr (xs ! nat i)"
  by (simp add: py_index_def Let_def)

lemma py_index_nat: "i < length xs \<Longrightarrow> py_index xs (int i) = Inr (xs ! i)"
  by (simp add: py_index_def Let_def)

lemma py_index_neg:
  "i < 0 \<Longrightarrow> - int (length xs) \<le> i \<Longrightarrow> py_index xs i = Inr (xs ! nat (i + int (length xs)))"
  by (simp add: py_index_def Let_def)

lemma py_index_out:
  "i < - int (length xs) \<or> int (length xs) \<le> i \<Longrightarrow> py_index xs i = Inl IndexError"
  by (auto simp: py_index_def Let_def)

lemma py_index_error: "py_index xs i = Inl e \<Longrightarrow> e = IndexError"
  by (auto simp: py_index_def Let_def split: if_splits)

lemma py_index_in_range:
  "- int (length xs) \<le> i \<Longrightarrow> i < int (length xs) \<Longrightarrow> \<exists>x. py_index xs i = Inr x"
  by (auto simp: py_index_def Let_def)

lemma py_index_Inr_set: "py_index xs i = Inr x \<Longrightarrow> x \<in> set xs"
  by (auto simp: py_index_def Let_def split: if_splits)

lemma py_index_wrap:
  "i < 0 \<Longrightarrow> - int (length xs) \<le> i \<Longrightarrow> py_index xs i = py_index xs (i + int (length xs))"
  by (simp add: py_index_def Let_def)

lemma map_result_Inr:
  "map_result f xs = Inr ys \<Longrightarrow> length ys = length xs \<and> (\<forall>i<length xs. f (xs ! i) = Inr (ys ! i))"
proof (induction xs arbitrary: ys)
  case Nil
  then show ?case by simp
next
  case (Cons x xs)
  from Cons.prems obtain y ys' where y: "f x = Inr y" "map_result f xs = Inr ys'" "ys = y # ys'"
    by (auto split: sum.splits)
  from Cons.IH[OF y(2)] have ih: "length ys' = length xs" "\<forall>i<length xs. f (xs ! i) = Inr (ys' ! i)"
    by simp_all
  show ?case
  proof (intro conjI allI impI)
    show "length ys = length (x # xs)" using ih(1) y(3) by simp
  next
    fix i assume "i < length (x # xs)"
    then show "f ((x # xs) ! i) = Inr (ys ! i)" using ih(2) y(1,3) by (cases i) simp_all
  qed
qed

lemma map_result_cong:
  "(\<And>x. x \<in> set xs \<Longrightarrow> f x = g x) \<Longrightarrow> map_result f xs = map_result g xs"
proof (induction xs)
  case Nil
  then show ?case by simp
next
  case (Cons a xs)
  then have "map_result f xs = map_result g xs" "f a = g a" by simp_all
  then show ?case by (simp split: sum.splits)
qed


lemma map_result_error:
  "map_result f xs = Inl e \<Longrightarrow> \<exists>x\<in>set xs. f x = Inl e"
  by (induction xs) (auto split: sum.splits)

lemma collect_st_Inr:
  "collect_st h is s = Inr (ys, s') \<Longrightarrow>
   length ys = length is \<and> (\<forall>k<length is. \<exists>a b. h (is ! k) a = Inr (ys ! k, b))"
proof (induction "is" arbitrary: s ys)
  case Nil
  then show ?case by simp
next
  case (Cons i "is")
  from Cons.prems obtain y s1 ys' where y: "h i s = Inr (y, s1)"
      "collect_st h is s1 = Inr (ys', s')" "ys = y # ys'"
    by (auto split: sum.splits prod.splits)
  from Cons.IH[OF y(2)] have ih: "length ys' = length is"
      "\<forall>k<length is. \<exists>a b. h (is ! k) a = Inr (ys' ! k, b)"
    by simp_all
  show ?case
  proof (intro conjI allI impI)
    show "length ys = length (i # is)" using ih(1) y(3) by simp
  next
    fix k assume "k < length (i # is)"
    then show "\<exists>a b. h ((i # is) ! k) a = Inr (ys ! k, b)"
      using ih(2) y(1,3) by (cases k) auto
  qed
qed

lemma collect_st_cong:
  "(\<And>i s. i \<in> set is \<Longrightarrow> h i s = h' i s) \<Longrightarrow> collect_st h is s = collect_st h' is s"
proof (induction "is" arbitrary: s)
  case Nil
  then show ?case by simp
next
  case (Cons i "is")
  then have "\<And>s. collect_st h is s = collect_st h' is s" "h i s = h' i s" by simp_all
  then show ?case by (simp split: sum.splits prod.splits)
qed

text \<open>
  A loop \<open>for i in range(n): t[i] = f(i)\<close> over an array of \<open>n\<close> slots computes the list of
  the \<open>f(i)\<close>, whatever the array held before.
\<close>

lemma fill_loop_from:
  assumes body: "\<And>i t. i < n \<Longrightarrow> length t = n \<Longrightarrow> \<forall>x\<in>set t. P x \<Longrightarrow>
                   body i t = bind (f i) (\<lambda>x. Inr (t[i := x]))"
    and P: "\<And>i x. i < n \<Longrightarrow> f i = Inr x \<Longrightarrow> P x"
  shows "k \<le> n \<Longrightarrow> length t = n \<Longrightarrow> \<forall>x\<in>set t. P x \<Longrightarrow>
         for_each [k..<n] body t = bind (map_result f [k..<n]) (\<lambda>xs. Inr (take k t @ xs))"
proof (induction "n - k" arbitrary: k t)
  case 0
  then show ?case by simp
next
  case (Suc d)
  then have k: "k < n" by simp
  have u: "[k..<n] = k # [Suc k..<n]" using k by (simp add: upt_conv_Cons)
  show ?case
  proof (cases "f k")
    case (Inl e)
    then show ?thesis using body[OF k Suc.prems(2,3)] by (simp add: u)
  next
    case (Inr x)
    define t' where "t' = t[k := x]"
    have b: "body k t = Inr t'" using body[OF k Suc.prems(2,3)] Inr by (simp add: t'_def)
    have l: "length t' = n" using Suc.prems(2) by (simp add: t'_def)
    have p: "\<forall>y\<in>set t'. P y"
      using Suc.prems(3) P[OF k Inr] unfolding t'_def by (auto dest: subsetD[OF set_update_subset_insert])
    have d: "d = n - Suc k" using Suc.hyps(2) by simp
    have ih: "for_each [Suc k..<n] body t' =
        bind (map_result f [Suc k..<n]) (\<lambda>xs. Inr (take (Suc k) t' @ xs))"
      using Suc.hyps(1)[OF d _ l p] k by simp
    have tk: "take (Suc k) t' = take k t @ [x]"
      using k Suc.prems(2) by (simp add: t'_def take_Suc_conv_app_nth)
    show ?thesis
      by (simp add: u b ih Inr tk bind_def split: sum.splits)
  qed
qed

lemma fill_loop:
  assumes "\<And>i t. i < n \<Longrightarrow> length t = n \<Longrightarrow> \<forall>x\<in>set t. P x \<Longrightarrow>
             body i t = bind (f i) (\<lambda>x. Inr (t[i := x]))"
    and "\<And>i x. i < n \<Longrightarrow> f i = Inr x \<Longrightarrow> P x"
    and "length t = n" "\<forall>x\<in>set t. P x"
  shows "for_each [0..<n] body t = map_result f [0..<n]"
proof -
  have "for_each [0..<n] body t = bind (map_result f [0..<n]) (\<lambda>xs. Inr (take 0 t @ xs))"
    by (rule fill_loop_from[where P = P]) (use assms in simp_all)
  then show ?thesis by (cases "map_result f [0..<n]") simp_all
qed

lemma fill_loop_st_from:
  assumes body: "\<And>i s t. i < n \<Longrightarrow> length t = n \<Longrightarrow> \<forall>x\<in>set t. P x \<Longrightarrow>
                   body i (s, t) = bind (h i s) (\<lambda>(x, s'). Inr (s', t[i := x]))"
    and P: "\<And>i s x s'. i < n \<Longrightarrow> h i s = Inr (x, s') \<Longrightarrow> P x"
  shows "k \<le> n \<Longrightarrow> length t = n \<Longrightarrow> \<forall>x\<in>set t. P x \<Longrightarrow>
         for_each [k..<n] body (s, t) =
           bind (collect_st h [k..<n] s) (\<lambda>(xs, s'). Inr (s', take k t @ xs))"
proof (induction "n - k" arbitrary: k t s)
  case 0
  then show ?case by simp
next
  case (Suc d)
  then have k: "k < n" by simp
  have u: "[k..<n] = k # [Suc k..<n]" using k by (simp add: upt_conv_Cons)
  show ?case
  proof (cases "h k s")
    case (Inl e)
    then show ?thesis using body[OF k Suc.prems(2,3)] by (simp add: u)
  next
    case (Inr p)
    obtain x s1 where p: "p = (x, s1)" by (cases p)
    define t' where "t' = t[k := x]"
    have hk: "h k s = Inr (x, s1)" using Inr p by simp
    have b: "body k (s, t) = Inr (s1, t')" using body[OF k Suc.prems(2,3)] hk by (simp add: t'_def)
    have l: "length t' = n" using Suc.prems(2) by (simp add: t'_def)
    have q: "\<forall>y\<in>set t'. P y"
      using Suc.prems(3) P[OF k hk] unfolding t'_def by (auto dest: subsetD[OF set_update_subset_insert])
    have d: "d = n - Suc k" using Suc.hyps(2) by simp
    have ih: "for_each [Suc k..<n] body (s1, t') =
        bind (collect_st h [Suc k..<n] s1) (\<lambda>(xs, s'). Inr (s', take (Suc k) t' @ xs))"
      using Suc.hyps(1)[OF d _ l q] k by simp
    have tk: "take (Suc k) t' = take k t @ [x]"
      using k Suc.prems(2) by (simp add: t'_def take_Suc_conv_app_nth)
    show ?thesis
      by (simp add: u b ih hk tk bind_def split: sum.splits prod.splits)
  qed
qed

lemma fill_loop_st:
  assumes "\<And>i s t. i < n \<Longrightarrow> length t = n \<Longrightarrow> \<forall>x\<in>set t. P x \<Longrightarrow>
             body i (s, t) = bind (h i s) (\<lambda>(x, s'). Inr (s', t[i := x]))"
    and "\<And>i s x s'. i < n \<Longrightarrow> h i s = Inr (x, s') \<Longrightarrow> P x"
    and "length t = n" "\<forall>x\<in>set t. P x"
  shows "for_each [0..<n] body (s, t) = bind (collect_st h [0..<n] s) (\<lambda>(xs, s'). Inr (s', xs))"
proof -
  have "for_each [0..<n] body (s, t) =
      bind (collect_st h [0..<n] s) (\<lambda>(xs, s'). Inr (s', take 0 t @ xs))"
    by (rule fill_loop_st_from[where P = P]) (use assms in simp_all)
  then show ?thesis by simp
qed

lemma for_each_lift:
  assumes "\<And>j t. i < length t \<Longrightarrow> body2 j t = bind (body1 j (t ! i)) (\<lambda>r. Inr (t[i := r]))"
  shows "i < length t \<Longrightarrow>
         for_each js body2 t = bind (for_each js body1 (t ! i)) (\<lambda>r. Inr (t[i := r]))"
proof (induction js arbitrary: t)
  case Nil
  then show ?case by simp
next
  case (Cons j js)
  show ?case
  proof (cases "body1 j (t ! i)")
    case (Inl e)
    then show ?thesis using assms[OF Cons.prems, of j] by simp
  next
    case (Inr r)
    define t' where "t' = t[i := r]"
    have b: "body2 j t = Inr t'" using assms[OF Cons.prems, of j] Inr by (simp add: t'_def)
    have l: "i < length t'" using Cons.prems by (simp add: t'_def)
    have n: "t' ! i = r" using Cons.prems by (simp add: t'_def)
    have "for_each js body2 t' = bind (for_each js body1 (t' ! i)) (\<lambda>r. Inr (t'[i := r]))"
      using l by (rule Cons.IH)
    moreover have "t'[i := r'] = t[i := r']" for r' by (simp add: t'_def)
    ultimately have "for_each js body2 t' = bind (for_each js body1 r) (\<lambda>r. Inr (t[i := r]))"
      unfolding n by simp
    then show ?thesis by (simp add: b Inr)
  qed
qed

lemma for_each_lift_st:
  assumes "\<And>j s t. i < length t \<Longrightarrow>
             body2 j (s, t) = bind (body1 j (s, t ! i)) (\<lambda>(s', r). Inr (s', t[i := r]))"
  shows "i < length t \<Longrightarrow>
         for_each js body2 (s, t) =
           bind (for_each js body1 (s, t ! i)) (\<lambda>(s', r). Inr (s', t[i := r]))"
proof (induction js arbitrary: s t)
  case Nil
  then show ?case by simp
next
  case (Cons j js)
  show ?case
  proof (cases "body1 j (s, t ! i)")
    case (Inl e)
    then show ?thesis using assms[OF Cons.prems, of j s] by simp
  next
    case (Inr p)
    obtain s1 r where p: "p = (s1, r)" by (cases p)
    define t' where "t' = t[i := r]"
    have b: "body2 j (s, t) = Inr (s1, t')"
      using assms[OF Cons.prems, of j s] Inr p by (simp add: t'_def)
    have l: "i < length t'" using Cons.prems by (simp add: t'_def)
    have n: "t' ! i = r" using Cons.prems by (simp add: t'_def)
    have "for_each js body2 (s1, t') =
        bind (for_each js body1 (s1, t' ! i)) (\<lambda>(s', r). Inr (s', t'[i := r]))"
      using l by (rule Cons.IH)
    moreover have "t'[i := r'] = t[i := r']" for r' by (simp add: t'_def)
    ultimately have "for_each js body2 (s1, t') =
        bind (for_each js body1 (s1, r)) (\<lambda>(s', r). Inr (s', t[i := r]))"
      unfolding n by simp
    then show ?thesis by (simp add: b Inr p)
  qed
qed

lemma bind_assoc: "bind (bind m f) k = bind m (\<lambda>x. bind (f x) k)"
  by (cases m) simp_all

section \<open>Array shapes\<close>

lemma chunks_length [simp]: "length (chunks n c xs) = n"
  by (simp add: chunks_def)

lemma chunks_nth: "i < n \<Longrightarrow> chunks n c xs ! i = take c (drop (i * c) xs)"
  by (simp add: chunks_def)

lemma chunks_row_length:
  assumes "length xs = n * c" "row \<in> set (chunks n c xs)"
  shows "length row = c"
proof -
  from assms(2) obtain i where i: "i < n" "row = take c (drop (i * c) xs)"
    by (auto simp: chunks_def)
  have "Suc i * c \<le> n * c" using i(1) by (intro mult_le_mono1) simp
  then have "i * c + c \<le> length xs" using assms(1) by simp
  then show ?thesis using i(2) by simp
qed

lemma chunks_row_set: "row \<in> set (chunks n c xs) \<Longrightarrow> set row \<subseteq> set xs"
  by (auto simp: chunks_def dest: in_set_takeD in_set_dropD)

lemma np_empty2_length [simp]: "length (np_empty2 r c junk) = r"
  by (simp add: np_empty2_def reshape2_def)

lemma np_empty1_length [simp]: "length (np_empty1 n junk) = n"
  by (simp add: np_empty1_def)

lemma reshape3_length [simp]: "length (reshape3 r c g xs) = r"
  by (simp add: reshape3_def)

lemma reshape3_plane_length: "plane \<in> set (reshape3 r c g xs) \<Longrightarrow> length plane = c"
  by (auto simp: reshape3_def)

lemma reshape3_row_length:
  assumes "length xs = r * c * g" "plane \<in> set (reshape3 r c g xs)" "row \<in> set plane"
  shows "length row = g"
proof -
  from assms(2) obtain blk where b: "blk \<in> set (chunks r (c * g) xs)" "plane = chunks c g blk"
    by (auto simp: reshape3_def)
  have "length xs = r * (c * g)" using assms(1) by (simp add: mult.assoc)
  then have "length blk = c * g" using b(1) by (rule chunks_row_length)
  moreover have "row \<in> set (chunks c g blk)" using assms(3) b(2) by simp
  ultimately show ?thesis by (rule chunks_row_length)
qed

lemma reshape3_row_set:
  "plane \<in> set (reshape3 r c g xs) \<Longrightarrow> row \<in> set plane \<Longrightarrow> set row \<subseteq> set xs"
  by (auto simp: reshape3_def dest!: chunks_row_set)

lemma np_empty3_length [simp]: "length (np_empty3 r c g junk) = r"
  by (simp add: np_empty3_def)

lemma np_empty3_plane_length: "plane \<in> set (np_empty3 r c g junk) \<Longrightarrow> length plane = c"
  by (simp add: np_empty3_def reshape3_plane_length)

section \<open>Closed forms of the batch loops\<close>

lemma generate_batch_closed:
  "generate_batch g b junk =
     bind (py_index (sample_indices g) b) (\<lambda>sample_row.
     bind (py_index (sequence_indices g) b) (\<lambda>sequence_row.
     map_result (fetch_row g b sample_row sequence_row) [0..<batch_size g]))"
proof -
  have "for_each [0..<batch_size g]
          (\<lambda>i batch. bind (fetch_row g b sr qr i) (\<lambda>row. Inr (batch[i := row])))
          (np_empty2 (batch_size g) (sequence_length g) junk)
        = map_result (fetch_row g b sr qr) [0..<batch_size g]" for sr qr
    by (rule fill_loop[where P = "\<lambda>_. True"]) simp_all
  then show ?thesis by (simp add: generate_batch_def Let_def)
qed

lemma batch_to_kmers_closed:
  "batch_to_kmers g batch junk =
     (if int (sequence_length g) - int (kmer g) + 1 < 0 then Inl ValueError
      else map_result
             (\<lambda>i. kmer_row (kmer g) (nat (int (sequence_length g) - int (kmer g) + 1)) (batch ! i))
             [0..<length batch])"
proof -
  have "for_each [0..<length batch]
          (\<lambda>i result. bind (kmer_row (kmer g) w (batch ! i)) (\<lambda>row. Inr (result[i := row])))
          (np_empty2 (length batch) w junk)
        = map_result (\<lambda>i. kmer_row (kmer g) w (batch ! i)) [0..<length batch]" for w
    by (rule fill_loop[where P = "\<lambda>_. True"]) simp_all
  then show ?thesis by (simp add: batch_to_kmers_def Let_def)
qed

lemma sample_batch_to_kmers_closed:
  "sample_batch_to_kmers g batch junk =
     (if int (sequence_length g) - int (kmer g) + 1 < 0 then Inl ValueError
      else map_result
             (\<lambda>i. bind (batch_to_kmers g (batch ! i) junk)
                     (assign_rows (subsample_length g)
                        (nat (int (sequence_length g) - int (kmer g) + 1))))
             [0..<length batch])"
proof -
  have "for_each [0..<length batch]
          (\<lambda>i result. bind (batch_to_kmers g (batch ! i) junk) (\<lambda>block.
                        bind (assign_rows (subsample_length g) w block)
                          (\<lambda>rows. Inr (result[i := rows]))))
          (np_empty3 (length batch) (subsample_length g) w junk)
        = map_result (\<lambda>i. bind (batch_to_kmers g (batch ! i) junk)
                            (assign_rows (subsample_length g) w)) [0..<length batch]" for w
    by (rule fill_loop[where P = "\<lambda>_. True"]) (simp_all add: bind_def split: sum.splits)
  then show ?thesis by (simp add: sample_batch_to_kmers_def Let_def)
qed

lemma sample_generate_batch_closed:
  "sample_generate_batch g b junk =
     bind (py_index (sample_indices g) b) (\<lambda>sample_row.
     bind (py_index (sequence_indices g) b) (\<lambda>sequence_rows.
     map_result
       (\<lambda>i. bind (py_index sample_row (int i)) (\<lambda>si.
            bind (py_index (samples g) si) (\<lambda>sample.
            map_result (sample_fetch_row g b sample sequence_rows i) [0..<subsample_length g])))
       [0..<batch_size g]))"
proof -
  define m where "m = subsample_length g"
  have inner: "for_each [0..<m]
          (\<lambda>j batch. bind (f j) (\<lambda>row. Inr (batch[i := (batch ! i)[j := row]]))) t
        = bind (map_result f [0..<m]) (\<lambda>rows. Inr (t[i := rows]))"
    if "i < length t" "length (t ! i) = m" for f :: "nat \<Rightarrow> int list result" and i t
  proof -
    have "for_each [0..<m]
            (\<lambda>j batch. bind (f j) (\<lambda>row. Inr (batch[i := (batch ! i)[j := row]]))) t
          = bind (for_each [0..<m] (\<lambda>j blk. bind (f j) (\<lambda>row. Inr (blk[j := row]))) (t ! i))
              (\<lambda>r. Inr (t[i := r]))"
      by (rule for_each_lift[OF _ that(1)]) (simp add: bind_def split: sum.splits)
    moreover have "for_each [0..<m] (\<lambda>j blk. bind (f j) (\<lambda>row. Inr (blk[j := row]))) (t ! i)
          = map_result f [0..<m]"
      by (rule fill_loop[where P = "\<lambda>_. True"]) (simp_all add: that(2))
    ultimately show ?thesis by simp
  qed
  have outer: "for_each [0..<batch_size g]
          (\<lambda>i batch.
              bind (py_index sr (int i)) (\<lambda>si.
              bind (py_index (samples g) si) (\<lambda>sample.
              for_each [0..<m]
                (\<lambda>j batch. bind (sample_fetch_row g b sample qr i j)
                              (\<lambda>row. Inr (batch[i := (batch ! i)[j := row]])))
                batch)))
          (np_empty3 (batch_size g) m (sequence_length g) junk)
        = map_result
            (\<lambda>i. bind (py_index sr (int i)) (\<lambda>si.
                 bind (py_index (samples g) si) (\<lambda>sample.
                 map_result (sample_fetch_row g b sample qr i) [0..<m])))
            [0..<batch_size g]" for sr qr
  proof (rule fill_loop[where P = "\<lambda>blk. length blk = m"])
    fix i and t :: "int list list list"
    assume a: "i < batch_size g" "length t = batch_size g" "\<forall>x\<in>set t. length x = m"
    then have l: "i < length t" "length (t ! i) = m" by simp_all
    show "bind (py_index sr (int i)) (\<lambda>si.
            bind (py_index (samples g) si) (\<lambda>sample.
            for_each [0..<m]
              (\<lambda>j batch. bind (sample_fetch_row g b sample qr i j)
                            (\<lambda>row. Inr (batch[i := (batch ! i)[j := row]])))
              t))
        = bind (bind (py_index sr (int i)) (\<lambda>si.
                 bind (py_index (samples g) si) (\<lambda>sample.
                 map_result (sample_fetch_row g b sample qr i) [0..<m])))
            (\<lambda>x. Inr (t[i := x]))"
      by (simp add: inner[OF l] bind_assoc)
  next
    fix i x
    assume "bind (py_index sr (int i)) (\<lambda>si.
                 bind (py_index (samples g) si) (\<lambda>sample.
                 map_result (sample_fetch_row g b sample qr i) [0..<m])) = Inr x"
    then show "length x = m" by (auto simp: bind_eq_Inr dest!: map_result_Inr)
  next
    show "length (np_empty3 (batch_size g) m (sequence_length g) junk) = batch_size g" by simp
  next
    show "\<forall>x\<in>set (np_empty3 (batch_size g) m (sequence_length g) junk). length x = m"
      by (simp add: np_empty3_plane_length)
  qed
  show ?thesis by (simp add: sample_generate_batch_def Let_def outer m_def[symmetric])
qed

section \<open>Shape of the encoded batches\<close>


lemma wrap64_zero [simp]: "wrap64 0 = 0"
  by (simp add: wrap64_def)








section \<open>Batch requests read the tables only\<close>

lemma augment_offset_fn_rng:
  "augment_offset_fn (g\<lparr>rng := r\<rparr>) style n idx = augment_offset_fn g style n idx"
  by (simp add: augment_offset_fn_def compute_augmented_offset_def split: option.splits)

lemma augment_offset_fn3_rng:
  "augment_offset_fn3 (g\<lparr>rng := r\<rparr>) style n idx = augment_offset_fn3 g style n idx"
  by (simp add: augment_offset_fn3_def compute_augmented_offset3_def split: option.splits)

lemma fetch_row_rng: "fetch_row (g\<lparr>rng := r\<rparr>) b sr qr = fetch_row g b sr qr"
  by (rule ext) (simp add: fetch_row_def augment_offset_fn_rng clip_sequence_def)

lemma sample_fetch_row_rng:
  "sample_fetch_row (g\<lparr>rng := r\<rparr>) b sample qr i = sample_fetch_row g b sample qr i"
  by (rule ext) (simp add: sample_fetch_row_def augment_offset_fn3_rng clip_sequence_def)

lemma generate_batch_tables_only:
  "generate_batch (g\<lparr>rng := r\<rparr>) b junk = generate_batch g b junk'"
  by (simp add: generate_batch_closed fetch_row_rng)

lemma batch_to_kmers_tables_only:
  "batch_to_kmers (g\<lparr>rng := r\<rparr>) batch junk = batch_to_kmers g batch junk'"
  by (simp add: batch_to_kmers_closed cong: if_cong)

lemma batch_to_kmers_junk: "batch_to_kmers g batch junk = batch_to_kmers g batch junk'"
  by (simp add: batch_to_kmers_closed)

lemma post_process_batch_rng:
  "post_process_batch (g\<lparr>rng := r\<rparr>) f batch b = post_process_batch g f batch b"
  by (simp add: post_process_batch_def cong: option.case_cong DnaLabelType.case_cong)

lemma getitem_tables_only:
  "getitem (g\<lparr>rng := r\<rparr>) b junk_i junk_f = getitem g b junk_i' junk_f'"
  unfolding getitem_def post_process_batch_rng
    generate_batch_tables_only[where junk = junk_i and junk' = junk_i']
    batch_to_kmers_tables_only[where junk = junk_f and junk' = junk_f'] ..

lemma sample_generate_batch_tables_only:
  "sample_generate_batch (g\<lparr>rng := r\<rparr>) b junk = sample_generate_batch g b junk'"
  by (simp add: sample_generate_batch_closed sample_fetch_row_rng)

lemma sample_batch_to_kmers_tables_only:
  "sample_batch_to_kmers (g\<lparr>rng := r\<rparr>) batch junk = sample_batch_to_kmers g batch junk'"
  unfolding sample_batch_to_kmers_closed batch_to_kmers_tables_only[where junk = junk and junk' = junk']
  by (simp cong: if_cong)

lemma sample_getitem_tables_only:
  "sample_getitem (g\<lparr>rng := r\<rparr>) b junk_i junk_f = sample_getitem g b junk_i' junk_f'"
  unfolding sample_getitem_def post_process_batch_rng
    sample_generate_batch_tables_only[where junk = junk_i and junk' = junk_i']
    sample_batch_to_kmers_tables_only[where junk = junk_f and junk' = junk_f'] ..

text \<open>
  C3.  A batch request returns a value and leaves the generator as it is: the model of
  \<open>__getitem__\<close> has no updated generator to return.  Its outcome, a batch or the
  exception raised, is a function of the batch index and of the attributes other than
  \<open>rng\<close>: it is the same for every state of the random generator and for every content of
  the uninitialised buffers that \<open>np.empty\<close> hands out.  So two requests for the same index
  with no epoch boundary between them return the same output, in both generator classes.
\<close>

theorem getitem_idempotent:
  "getitem (g\<lparr>rng := r\<rparr>) b junk_i junk_f = getitem g b junk_i' junk_f' \<and>
   sample_getitem (gs\<lparr>rng := r'\<rparr>) b junk_i junk_f = sample_getitem gs b junk_i' junk_f'"
  by (intro conjI getitem_tables_only sample_getitem_tables_only)

section \<open>Closed form of the sample generator's shuffle\<close>

lemma draw_group_keys:
  "draw_group ops gsize lengths i j (s, t) =
     bind (draw_keys ops gsize lengths i j s) (\<lambda>(row, s'). Inr (s', t[i := (t ! i)[j := row]]))"
  by (simp add: draw_group_def draw_keys_def bind_def split: sum.splits prod.splits)

lemma draw_row_closed:
  assumes "i < length t" "length (t ! i) = c"
  shows "for_each [0..<c] (\<lambda>j. draw_group ops gsize lengths i j) (s, t) =
           bind (collect_st (draw_keys ops gsize lengths i) [0..<c] s)
             (\<lambda>(rows, s'). Inr (s', t[i := rows]))"
proof -
  define body1 where "body1 = (\<lambda>j (st :: 'a \<times> int list list).
      bind (draw_keys ops gsize lengths i j (fst st)) (\<lambda>(row, s'). Inr (s', (snd st)[j := row])))"
  have "for_each [0..<c] (\<lambda>j. draw_group ops gsize lengths i j) (s, t) =
      bind (for_each [0..<c] body1 (s, t ! i)) (\<lambda>(s', r). Inr (s', t[i := r]))"
    using assms(1)
    by (rule for_each_lift_st[rotated])
       (simp add: draw_group_keys body1_def bind_def split: sum.splits prod.splits)
  moreover have "for_each [0..<c] body1 (s, t ! i) =
      bind (collect_st (draw_keys ops gsize lengths i) [0..<c] s) (\<lambda>(xs, s'). Inr (s', xs))"
    by (rule fill_loop_st[where P = "\<lambda>_. True"]) (simp_all add: body1_def assms(2))
  ultimately show ?thesis
    by (simp add: bind_def split: sum.splits prod.splits)
qed

lemma draw_table_closed:
  assumes "length t = r" "\<forall>p\<in>set t. length p = c"
  shows "for_each [0..<r] (\<lambda>i. for_each [0..<c] (\<lambda>j. draw_group ops gsize lengths i j)) (s, t) =
           bind (collect_st (\<lambda>i. collect_st (draw_keys ops gsize lengths i) [0..<c]) [0..<r] s)
             (\<lambda>(planes, s'). Inr (s', planes))"
proof (rule fill_loop_st[where P = "\<lambda>p. length p = c"])
  fix i s and t :: "int list list list"
  assume "i < r" "length t = r" "\<forall>x\<in>set t. length x = c"
  then have "i < length t" "length (t ! i) = c" by simp_all
  then show "for_each [0..<c] (draw_group ops gsize lengths i) (s, t) =
      bind (collect_st (draw_keys ops gsize lengths i) [0..<c] s) (\<lambda>(x, s'). Inr (s', t[i := x]))"
    by (rule draw_row_closed)
next
  fix i s x s'
  assume "collect_st (draw_keys ops gsize lengths i) [0..<c] s = Inr (x, s')"
  then show "length x = c" by (auto dest: collect_st_Inr)
qed (use assms in simp_all)

lemma sample_shuffle_closed:
  assumes "length (sequence_indices g) = batches_per_epoch g"
    and "\<forall>p\<in>set (sequence_indices g). length p = batch_size g"
  shows "sample_shuffle ops g =
     (let r = batches_per_epoch g; c = batch_size g; gsize = subsample_length g
      in bind (integers ops (int (num_samples g)) (r * c) (rng g)) (\<lambda>(si, s1).
         let sidx = reshape2 r c si
         in bind (take_lengths (sample_lengths g) sidx) (\<lambda>lengths.
            bind (collect_st (\<lambda>i. collect_st (draw_keys ops gsize lengths i) [0..<c]) [0..<r] s1)
              (\<lambda>(qidx, s2).
            let g' = g\<lparr>sample_indices := sidx, sequence_indices := qidx\<rparr>
            in if augment g
               then (let (os, s3) = uniform ops (r * c * gsize) s2
                     in Inr (g'\<lparr>rng := s3, augment_offsets := Some (reshape3 r c gsize os)\<rparr>))
               else Inr (g'\<lparr>rng := s2\<rparr>)))))"
  unfolding sample_shuffle_def Let_def draw_table_closed[OF assms]
  by (simp add: bind_def split: sum.splits prod.splits)

lemma sample_shuffle_table:
  assumes "length (sequence_indices g) = batches_per_epoch g"
    and "\<forall>p\<in>set (sequence_indices g). length p = batch_size g"
    and "length t = batches_per_epoch g" "\<forall>p\<in>set t. length p = batch_size g"
  shows "sample_shuffle ops (g\<lparr>sequence_indices := t\<rparr>) = sample_shuffle ops g"
proof -
  have "sample_shuffle ops (g\<lparr>sequence_indices := t\<rparr>) = (let r = batches_per_epoch g; c = batch_size g; gsize = subsample_length g
      in bind (integers ops (int (num_samples g)) (r * c) (rng g)) (\<lambda>(si, s1).
         let sidx = reshape2 r c si
         in bind (take_lengths (sample_lengths g) sidx) (\<lambda>lengths.
            bind (collect_st (\<lambda>i. collect_st (draw_keys ops gsize lengths i) [0..<c]) [0..<r] s1)
              (\<lambda>(qidx, s2).
            let g' = g\<lparr>sample_indices := sidx, sequence_indices := qidx\<rparr>
            in if augment g
               then (let (os, s3) = uniform ops (r * c * gsize) s2
                     in Inr (g'\<lparr>rng := s3, augment_offsets := Some (reshape3 r c gsize os)\<rparr>))
               else Inr (g'\<lparr>rng := s2\<rparr>)))))"
    by (subst sample_shuffle_closed) (use assms(3,4) in simp_all)
  then show ?thesis using sample_shuffle_closed[OF assms(1,2), of ops] by simp
qed

section \<open>Determinism\<close>

lemma getitem_junk: "getitem g b junk_i junk_f = getitem g b junk_i' junk_f'"
  using getitem_tables_only[where g = g and r = "rng g" and b = b and junk_i = junk_i
      and junk_f = junk_f and junk_i' = junk_i' and junk_f' = junk_f'] by simp

lemma sample_getitem_junk: "sample_getitem g b junk_i junk_f = sample_getitem g b junk_i' junk_f'"
  using sample_getitem_tables_only[where g = g and r = "rng g" and b = b and junk_i = junk_i
      and junk_f = junk_f and junk_i' = junk_i' and junk_f' = junk_f'] by simp

lemma DnaSampleGenerator_init_junk:
  fixes seed :: 's
  shows "DnaSampleGenerator_init ops archives gsize seq_len k bs bpe aug bal lbl seed junk =
   DnaSampleGenerator_init ops archives gsize seq_len k bs bpe aug bal lbl seed junk'"
proof -
  define g :: "int list \<Rightarrow> (nat \<Rightarrow> int) \<Rightarrow> 's DnaSampleGenerator" where "g = (\<lambda>lens j.
     \<lparr>samples = archives, sample_lengths = lens, num_samples = length archives,
      sequence_length = seq_len, kmer = k, augment = aug, batch_size = bs,
      batches_per_epoch = bpe, balance = bal, labels = lbl, rng = seed,
      sample_indices = [], sequence_indices = np_empty3 bpe bs gsize j,
      augment_offsets = None, subsample_length = gsize\<rparr>)"
  have "sample_shuffle ops (g lens junk') = sample_shuffle ops (g lens junk)" for lens
  proof -
    have "g lens junk' = (g lens junk)\<lparr>sequence_indices := np_empty3 bpe bs gsize junk'\<rparr>"
      by (simp add: g_def)
    moreover have "sample_shuffle ops ((g lens junk)\<lparr>sequence_indices := np_empty3 bpe bs gsize junk'\<rparr>)
        = sample_shuffle ops (g lens junk)"
      by (rule sample_shuffle_table) (simp_all add: g_def np_empty3_plane_length)
    ultimately show ?thesis by simp
  qed
  then show ?thesis by (simp add: DnaSampleGenerator_init_def g_def)
qed

text \<open>
  C2.  The batch with index \<open>b\<close> of epoch \<open>e\<close> of a freshly constructed generator is a
  function of the random generator's methods and initial state, the archives and the
  configuration.  Two generators that agree on these return the same outcome at every
  batch index of every epoch, whatever their uninitialised buffers hold: the buffers of
  \<open>generate_batch\<close> and \<open>batch_to_kmers\<close> and, in the sample generator, the index table
  allocated by the constructor are overwritten in full before they are read.
\<close>

theorem batches_deterministic:
  "batch_at ops archives seq_len k bs bpe aug bal lbl seed e b junk_i junk_f =
   batch_at ops archives seq_len k bs bpe aug bal lbl seed e b junk_i' junk_f' \<and>
   sample_batch_at ops archives gsize seq_len k bs bpe aug bal lbl seed e b junk_0 junk_i junk_f =
   sample_batch_at ops archives gsize seq_len k bs bpe aug bal lbl seed e b junk_0' junk_i' junk_f'"
proof
  show "batch_at ops archives seq_len k bs bpe aug bal lbl seed e b junk_i junk_f =
      batch_at ops archives seq_len k bs bpe aug bal lbl seed e b junk_i' junk_f'"
    unfolding batch_at_def getitem_junk[where junk_i = junk_i and junk_f = junk_f
        and junk_i' = junk_i' and junk_f' = junk_f'] ..
  show "sample_batch_at ops archives gsize seq_len k bs bpe aug bal lbl seed e b junk_0 junk_i junk_f =
      sample_batch_at ops archives gsize seq_len k bs bpe aug bal lbl seed e b junk_0' junk_i' junk_f'"
    unfolding sample_batch_at_def
      DnaSampleGenerator_init_junk[where junk = junk_0 and junk' = junk_0']
      sample_getitem_junk[where junk_i = junk_i and junk_f = junk_f
        and junk_i' = junk_i' and junk_f' = junk_f'] ..
qed

section \<open>What a shuffle establishes\<close>

lemma reshape2_shape: "length xs = r * c \<Longrightarrow> shape2 r c (reshape2 r c xs)"
  by (auto simp: shape2_def reshape2_def dest: chunks_row_length)

lemma reshape2_set: "row \<in> set (reshape2 r c xs) \<Longrightarrow> set row \<subseteq> set xs"
  by (simp add: reshape2_def chunks_row_set)

lemma map2_set: "z \<in> set (map2 f xs ys) \<Longrightarrow> \<exists>x\<in>set xs. \<exists>y\<in>set ys. z = f x y"
  by (auto dest: set_zip_leftD set_zip_rightD)

lemma take_lengths_Inr:
  assumes "take_lengths lens idx = Inr lengths"
  shows "length lengths = length idx"
    and "i < length idx \<Longrightarrow> length (lengths ! i) = length (idx ! i)"
    and "i < length idx \<Longrightarrow> j < length (idx ! i) \<Longrightarrow>
           py_index lens (idx ! i ! j) = Inr (lengths ! i ! j)"
proof -
  from map_result_Inr[OF assms[unfolded take_lengths_def]]
  have a: "length lengths = length idx"
      "\<forall>i<length idx. map_result (py_index lens) (idx ! i) = Inr (lengths ! i)"
    by simp_all
  show "length lengths = length idx" by (rule a(1))
  { assume i: "i < length idx"
    from a(2) i have "map_result (py_index lens) (idx ! i) = Inr (lengths ! i)" by simp
    from map_result_Inr[OF this]
    have b: "length (lengths ! i) = length (idx ! i)"
        "\<forall>j<length (idx ! i). py_index lens (idx ! i ! j) = Inr (lengths ! i ! j)"
      by simp_all
    show "length (lengths ! i) = length (idx ! i)" by (rule b(1))
    show "j < length (idx ! i) \<Longrightarrow> py_index lens (idx ! i ! j) = Inr (lengths ! i ! j)"
      using b(2) by simp }
qed

lemma take_lengths_set:
  assumes "take_lengths lens idx = Inr lengths" "row \<in> set lengths" "l \<in> set row"
  shows "l \<in> set lens"
proof -
  from assms(2) obtain i where i: "i < length lengths" "row = lengths ! i"
    by (auto simp: in_set_conv_nth)
  from assms(3) i obtain j where j: "j < length (lengths ! i)" "l = lengths ! i ! j"
    by (auto simp: in_set_conv_nth)
  have i': "i < length idx" using i(1) take_lengths_Inr(1)[OF assms(1)] by simp
  have j': "j < length (idx ! i)" using j(1) take_lengths_Inr(2)[OF assms(1) i'] by simp
  from take_lengths_Inr(3)[OF assms(1) i' j'] show ?thesis
    using j(2) by (auto dest: py_index_Inr_set)
qed

lemma py_int_bound:
  assumes "0 \<le> u" "u < 1" "1 \<le> l"
  shows "0 \<le> py_int (real_of_int l * u) \<and> py_int (real_of_int l * u) < l"
proof -
  have p: "0 \<le> real_of_int l * u" using assms by simp
  have "real_of_int l * u < real_of_int l * 1"
    using assms by (intro mult_strict_left_mono) simp_all
  then have "\<lfloor>real_of_int l * u\<rfloor> < l" by (simp add: floor_less_iff)
  moreover have "0 \<le> \<lfloor>real_of_int l * u\<rfloor>" using p by simp
  ultimately show ?thesis using p by (simp add: py_int_def)
qed

lemma rng_ok_integers:
  "rng_ok ops \<Longrightarrow> integers ops high n s = Inr (xs, s') \<Longrightarrow>
   length xs = n \<and> (\<forall>x\<in>set xs. 0 \<le> x \<and> x < high)"
  unfolding rng_ok_def by blast

lemma rng_ok_uniform:
  "rng_ok ops \<Longrightarrow> length (fst (uniform ops n s)) = n \<and>
     (\<forall>u\<in>set (fst (uniform ops n s)). 0 \<le> u \<and> u < 1)"
  unfolding rng_ok_def by blast

lemma rng_ok_choice:
  "rng_ok ops \<Longrightarrow> choice ops pop k s = Inr (xs, s') \<Longrightarrow>
   length xs = k \<and> set xs \<subseteq> set pop \<and> (distinct pop \<longrightarrow> distinct xs)"
  unfolding rng_ok_def by blast

lemma shuffle_Inr:
  assumes "shuffle ops g = Inr g'"
  defines "r \<equiv> batches_per_epoch g" and "c \<equiv> batch_size g"
  shows "\<exists>si s1 lengths. integers ops (int (num_samples g)) (r * c) (rng g) = Inr (si, s1) \<and>
           take_lengths (sample_lengths g) (reshape2 r c si) = Inr lengths \<and>
           same_config g g' \<and>
           sample_indices g' = reshape2 r c si \<and>
           sequence_indices g' =
             map2 (map2 (\<lambda>l u. py_int (real_of_int l * u))) lengths
               (reshape2 r c (fst (uniform ops (r * c) s1))) \<and>
           (augment g \<longrightarrow> augment_offsets g' =
              Some (reshape2 r c (fst (uniform ops (r * c) (snd (uniform ops (r * c) s1))))))"
proof -
  from assms(1) obtain p where p: "integers ops (int (num_samples g)) (r * c) (rng g) = Inr p"
    and p2: "(case p of (si, s1) \<Rightarrow>
         let sidx = reshape2 r c si
         in bind (take_lengths (sample_lengths g) sidx) (\<lambda>lengths.
            let (us, s2) = uniform ops (r * c) s1;
                qidx = map2 (map2 (\<lambda>l u. py_int (real_of_int l * u))) lengths (reshape2 r c us);
                g' = g\<lparr>sample_indices := sidx, sequence_indices := qidx\<rparr>
            in if augment g
               then (let (os, s3) = uniform ops (r * c) s2
                     in Inr (g'\<lparr>rng := s3, augment_offsets := Some (reshape2 r c os)\<rparr>))
               else Inr (g'\<lparr>rng := s2\<rparr>))) = Inr g'"
    unfolding shuffle_def r_def c_def Let_def bind_eq_Inr by blast
  obtain si s1 where ps: "p = (si, s1)" by (cases p)
  obtain us s2 where u: "uniform ops (r * c) s1 = (us, s2)" by (cases "uniform ops (r * c) s1")
  obtain os s3 where o: "uniform ops (r * c) s2 = (os, s3)" by (cases "uniform ops (r * c) s2")
  from p2 have "\<exists>lengths. take_lengths (sample_lengths g) (reshape2 r c si) = Inr lengths \<and>
            g' = (if augment g
               then g\<lparr>sample_indices := reshape2 r c si,
                      sequence_indices := map2 (map2 (\<lambda>l u. py_int (real_of_int l * u))) lengths
                         (reshape2 r c us), rng := s3,
                      augment_offsets := Some (reshape2 r c os)\<rparr>
               else g\<lparr>sample_indices := reshape2 r c si,
                      sequence_indices := map2 (map2 (\<lambda>l u. py_int (real_of_int l * u))) lengths
                         (reshape2 r c us), rng := s2\<rparr>)"
    by (cases "augment g") (auto simp: ps u o Let_def bind_eq_Inr)
  then obtain lengths where l: "take_lengths (sample_lengths g) (reshape2 r c si) = Inr lengths"
    and g': "g' = (if augment g
               then g\<lparr>sample_indices := reshape2 r c si,
                      sequence_indices := map2 (map2 (\<lambda>l u. py_int (real_of_int l * u))) lengths
                         (reshape2 r c us), rng := s3,
                      augment_offsets := Some (reshape2 r c os)\<rparr>
               else g\<lparr>sample_indices := reshape2 r c si,
                      sequence_indices := map2 (map2 (\<lambda>l u. py_int (real_of_int l * u))) lengths
                         (reshape2 r c us), rng := s2\<rparr>)"
    by blast
  have "same_config g g'" unfolding g' by (simp add: same_config_def)
  moreover have "sample_indices g' = reshape2 r c si" unfolding g' by simp
  moreover have "sequence_indices g' =
             map2 (map2 (\<lambda>l u. py_int (real_of_int l * u))) lengths
               (reshape2 r c (fst (uniform ops (r * c) s1)))"
    unfolding g' by (simp add: u)
  moreover have "augment g \<longrightarrow> augment_offsets g' =
              Some (reshape2 r c (fst (uniform ops (r * c) (snd (uniform ops (r * c) s1)))))"
    unfolding g' by (simp add: u o)
  ultimately show ?thesis using p l ps by blast
qed

lemma shuffle_ready:
  assumes ok: "rng_ok ops" and sh: "shuffle ops g = Inr g'"
    and n: "num_samples g = length (samples g)"
  shows "same_config g g' \<and> ready g'"
proof -
  define r where "r = batches_per_epoch g"
  define c where "c = batch_size g"
  from shuffle_Inr[OF sh] obtain si s1 lengths where
    i: "integers ops (int (num_samples g)) (r * c) (rng g) = Inr (si, s1)" and
    l: "take_lengths (sample_lengths g) (reshape2 r c si) = Inr lengths" and
    cfg: "same_config g g'" and
    sidx: "sample_indices g' = reshape2 r c si" and
    qidx: "sequence_indices g' =
             map2 (map2 (\<lambda>l u. py_int (real_of_int l * u))) lengths
               (reshape2 r c (fst (uniform ops (r * c) s1)))" and
    aug: "augment g \<longrightarrow> augment_offsets g' =
              Some (reshape2 r c (fst (uniform ops (r * c) (snd (uniform ops (r * c) s1)))))"
    unfolding r_def c_def by blast
  have rc: "batches_per_epoch g' = r" "batch_size g' = c"
    using cfg by (simp_all add: same_config_def r_def c_def)
  from rng_ok_integers[OF ok i] have si: "length si = r * c"
      "\<forall>x\<in>set si. 0 \<le> x \<and> x < int (num_samples g)" by simp_all
  have s2: "shape2 r c (reshape2 r c si)" using si(1) by (rule reshape2_shape)
  have sok: "sample_indices_ok g'"
    unfolding sample_indices_ok_def rc sidx
    using cfg n s2 si(2) by (auto simp: same_config_def dest!: reshape2_set)
  define us where "us = fst (uniform ops (r * c) s1)"
  from rng_ok_uniform[OF ok, of "r * c" s1] have us: "length us = r * c"
      "\<forall>u\<in>set us. 0 \<le> u \<and> u < 1" by (simp_all add: us_def)
  have u2: "shape2 r c (reshape2 r c us)" using us(1) by (rule reshape2_shape)
  have ll: "length lengths = r" using take_lengths_Inr(1)[OF l] s2 by (simp add: shape2_def)
  have lr: "length (lengths ! k) = c" if "k < r" for k
    using take_lengths_Inr(2)[OF l, of k] s2 that by (simp add: shape2_def)
  have qshape: "shape2 r c (sequence_indices g')"
  proof -
    have "length (sequence_indices g') = r" using ll u2 by (simp add: qidx us_def shape2_def)
    moreover have "length row = c" if "row \<in> set (sequence_indices g')" for row
    proof -
      from that obtain k where k: "k < r"
          "row = map2 (\<lambda>l u. py_int (real_of_int l * u)) (lengths ! k) (reshape2 r c us ! k)"
        using ll u2 by (auto simp: qidx us_def in_set_conv_nth shape2_def)
      have "length (reshape2 r c us ! k) = c" using u2 k(1) by (simp add: shape2_def)
      then show ?thesis using k lr by simp
    qed
    ultimately show ?thesis by (simp add: shape2_def)
  qed
  have qval: "\<exists>l\<in>set (sample_lengths g'). \<exists>u. 0 \<le> u \<and> u < 1 \<and> q = py_int (real_of_int l * u)"
    if "row \<in> set (sequence_indices g')" "q \<in> set row" for row q
  proof -
    from that(1) have "row \<in> set (map2 (map2 (\<lambda>l u. py_int (real_of_int l * u))) lengths
        (reshape2 r c us))"
      unfolding qidx us_def[symmetric] .
    from map2_set[OF this] obtain ls ur where a: "ls \<in> set lengths" "ur \<in> set (reshape2 r c us)"
        "row = map2 (\<lambda>l u. py_int (real_of_int l * u)) ls ur"
      by blast
    from that(2) have "q \<in> set (map2 (\<lambda>l u. py_int (real_of_int l * u)) ls ur)"
      unfolding a(3) .
    from map2_set[OF this] obtain l u where b: "l \<in> set ls" "u \<in> set ur"
        "q = py_int (real_of_int l * u)"
      by blast
    have "l \<in> set (sample_lengths g)" using l a(1) b(1) by (rule take_lengths_set)
    moreover have "0 \<le> u \<and> u < 1" using us(2) reshape2_set[OF a(2)] b(2) by blast
    ultimately show ?thesis using b(3) cfg by (auto simp: same_config_def)
  qed
  have afr: "fractions_ok r c (augment_offsets g')" if "augment g'"
  proof -
    define os where "os = fst (uniform ops (r * c) (snd (uniform ops (r * c) s1)))"
    from rng_ok_uniform[OF ok, of "r * c" "snd (uniform ops (r * c) s1)"]
    have os: "length os = r * c" "\<forall>u\<in>set os. 0 \<le> u \<and> u < 1" by (simp_all add: os_def)
    have "augment_offsets g' = Some (reshape2 r c os)"
      using aug that cfg by (simp add: os_def same_config_def)
    moreover have "shape2 r c (reshape2 r c os)" using os(1) by (rule reshape2_shape)
    moreover have "\<forall>row\<in>set (reshape2 r c os). \<forall>u\<in>set row. 0 \<le> u \<and> u < 1"
      using os(2) by (auto dest!: reshape2_set)
    ultimately show ?thesis by (simp add: fractions_ok_def)
  qed
  show ?thesis
    unfolding ready_def rc using cfg sok qshape qval afr by blast
qed

lemma same_config_refl [simp]: "same_config g g"
  by (simp add: same_config_def)

lemma same_config_trans: "same_config a b \<Longrightarrow> same_config b c \<Longrightarrow> same_config a c"
  by (simp add: same_config_def)

lemma epochs_ready:
  assumes ok: "rng_ok ops"
  shows "ready g \<Longrightarrow> epochs ops e g = Inr g' \<Longrightarrow> same_config g g' \<and> ready g'"
proof (induction e arbitrary: g)
  case 0
  then show ?case by simp
next
  case (Suc e)
  from Suc.prems(2) obtain g1 where g1: "shuffle ops g = Inr g1" "epochs ops e g1 = Inr g'"
    by (auto simp: on_epoch_end_def bind_eq_Inr)
  have "num_samples g = length (samples g)"
    using Suc.prems(1) by (simp add: ready_def sample_indices_ok_def)
  from shuffle_ready[OF ok g1(1) this] have a: "same_config g g1" "ready g1" by simp_all
  from Suc.IH[OF a(2) g1(2)] have "same_config g1 g'" "ready g'" by simp_all
  then show ?case using a(1) same_config_trans by blast
qed

lemma init_sample_lengths_length:
  "init_sample_lengths archives bal = Inr lens \<Longrightarrow> length lens = length archives"
  by (auto simp: init_sample_lengths_def Let_def bind_eq_Inr split: if_splits)

lemma DnaSequenceGenerator_init_ready:
  assumes ok: "rng_ok ops"
    and i: "DnaSequenceGenerator_init ops archives seq_len k bs bpe aug bal lbl seed = Inr g"
  shows "ready g \<and> samples g = archives \<and> sequence_length g = seq_len \<and> kmer g = k \<and>
         batch_size g = bs \<and> batches_per_epoch g = bpe \<and> augment g = aug \<and> balance g = bal \<and>
         labels g = lbl \<and> init_sample_lengths archives bal = Inr (sample_lengths g)"
proof -
  from i obtain lens g0 where
    l: "init_sample_lengths archives bal = Inr lens" and
    g0: "g0 = \<lparr>samples = archives, sample_lengths = lens, num_samples = length archives,
          sequence_length = seq_len, kmer = k, augment = aug, batch_size = bs,
          batches_per_epoch = bpe, balance = bal, labels = lbl, rng = seed,
          sample_indices = [], sequence_indices = [], augment_offsets = None\<rparr>" and
    s: "shuffle ops g0 = Inr g"
    by (auto simp: DnaSequenceGenerator_init_def bind_eq_Inr)
  have "num_samples g0 = length (samples g0)" by (simp add: g0)
  from shuffle_ready[OF ok s this] have "same_config g0 g" "ready g" by simp_all
  then show ?thesis using l by (simp add: same_config_def g0)
qed

lemma np_arange_set: "set (np_arange n) = {0..<n}"
proof -
  have "x \<in> int ` {0..<nat n} \<longleftrightarrow> 0 \<le> x \<and> x < n" for x
  proof
    assume "x \<in> int ` {0..<nat n}"
    then show "0 \<le> x \<and> x < n" by auto
  next
    assume a: "0 \<le> x \<and> x < n"
    then have "x = int (nat x)" "nat x \<in> {0..<nat n}" by auto
    then show "x \<in> int ` {0..<nat n}" by blast
  qed
  then show ?thesis by (auto simp: np_arange_def)
qed

lemma np_arange_distinct: "distinct (np_arange n)"
  by (simp add: np_arange_def distinct_map)

lemma draw_keys_Inr:
  assumes "rng_ok ops" "draw_keys ops gsize lengths i j a = Inr (row, b)"
  shows "\<exists>keys. length keys = gsize \<and> distinct keys \<and> set keys \<subseteq> {0..<lengths ! i ! j} \<and>
           row = map wrap32 keys"
proof -
  from assms(2) obtain keys s' where
    c: "choice ops (np_arange (lengths ! i ! j)) gsize a = Inr (keys, s')" and
    r: "assign_row gsize (map wrap32 keys) = Inr row"
    by (auto simp: draw_keys_def bind_eq_Inr)
  from rng_ok_choice[OF assms(1) c] have k: "length keys = gsize"
      "set keys \<subseteq> {0..<lengths ! i ! j}" "distinct keys"
    by (simp_all add: np_arange_set np_arange_distinct)
  have "row = map wrap32 keys" using r k(1) by (simp add: assign_row_def)
  then show ?thesis using k by blast
qed

lemma sample_shuffle_Inr:
  assumes sh: "sample_shuffle ops g = Inr g'"
    and t: "length (sequence_indices g) = batches_per_epoch g"
      "\<forall>p\<in>set (sequence_indices g). length p = batch_size g"
  defines "r \<equiv> batches_per_epoch g" and "c \<equiv> batch_size g" and "m \<equiv> subsample_length g"
  shows "\<exists>si s1 lengths qidx s2.
           integers ops (int (num_samples g)) (r * c) (rng g) = Inr (si, s1) \<and>
           take_lengths (sample_lengths g) (reshape2 r c si) = Inr lengths \<and>
           collect_st (\<lambda>i. collect_st (draw_keys ops m lengths i) [0..<c]) [0..<r] s1
             = Inr (qidx, s2) \<and>
           same_config g g' \<and>
           sample_indices g' = reshape2 r c si \<and>
           sequence_indices g' = qidx \<and>
           (augment g \<longrightarrow> augment_offsets g' =
              Some (reshape3 r c m (fst (uniform ops (r * c * m) s2))))"
proof -
  from sh[unfolded sample_shuffle_closed[OF t]]
  obtain p where p: "integers ops (int (num_samples g)) (r * c) (rng g) = Inr p"
    and p2: "(case p of (si, s1) \<Rightarrow>
         let sidx = reshape2 r c si
         in bind (take_lengths (sample_lengths g) sidx) (\<lambda>lengths.
            bind (collect_st (\<lambda>i. collect_st (draw_keys ops m lengths i) [0..<c]) [0..<r] s1)
              (\<lambda>(qidx, s2).
            let g' = g\<lparr>sample_indices := sidx, sequence_indices := qidx\<rparr>
            in if augment g
               then (let (os, s3) = uniform ops (r * c * m) s2
                     in Inr (g'\<lparr>rng := s3, augment_offsets := Some (reshape3 r c m os)\<rparr>))
               else Inr (g'\<lparr>rng := s2\<rparr>)))) = Inr g'"
    unfolding r_def c_def m_def Let_def bind_eq_Inr by blast
  obtain si s1 where ps: "p = (si, s1)" by (cases p)
  from p2 have "\<exists>lengths qidx s2.
      take_lengths (sample_lengths g) (reshape2 r c si) = Inr lengths \<and>
      collect_st (\<lambda>i. collect_st (draw_keys ops m lengths i) [0..<c]) [0..<r] s1
        = Inr (qidx, s2) \<and>
      g' = (if augment g
       then g\<lparr>sample_indices := reshape2 r c si, sequence_indices := qidx,
              rng := snd (uniform ops (r * c * m) s2),
              augment_offsets := Some (reshape3 r c m (fst (uniform ops (r * c * m) s2)))\<rparr>
       else g\<lparr>sample_indices := reshape2 r c si, sequence_indices := qidx, rng := s2\<rparr>)"
    by (cases "augment g") (auto simp: ps Let_def bind_eq_Inr case_prod_beta)
  then obtain lengths qidx s2 where
    l: "take_lengths (sample_lengths g) (reshape2 r c si) = Inr lengths" and
    q: "collect_st (\<lambda>i. collect_st (draw_keys ops m lengths i) [0..<c]) [0..<r] s1
          = Inr (qidx, s2)" and
    g': "g' = (if augment g
       then g\<lparr>sample_indices := reshape2 r c si, sequence_indices := qidx,
              rng := snd (uniform ops (r * c * m) s2),
              augment_offsets := Some (reshape3 r c m (fst (uniform ops (r * c * m) s2)))\<rparr>
       else g\<lparr>sample_indices := reshape2 r c si, sequence_indices := qidx, rng := s2\<rparr>)"
    by blast
  have "same_config g g'" unfolding g' by (simp add: same_config_def)
  moreover have "sample_indices g' = reshape2 r c si" unfolding g' by simp
  moreover have "sequence_indices g' = qidx" unfolding g' by simp
  moreover have "augment g \<longrightarrow> augment_offsets g' =
      Some (reshape3 r c m (fst (uniform ops (r * c * m) s2)))"
    unfolding g' by simp
  ultimately show ?thesis using p l q ps by blast
qed

lemma same_config_subsample:
  fixes g g' :: "'s DnaSampleGenerator"
  shows "same_config g g' \<Longrightarrow> subsample_length g' = subsample_length g"
  by (cases g, cases g') (simp add: same_config_def)

lemma reshape3_shape: "length xs = r * c * g \<Longrightarrow> shape3 r c g (reshape3 r c g xs)"
  by (auto simp: shape3_def shape2_def reshape3_plane_length dest: reshape3_row_length)

lemma sample_shuffle_ready:
  assumes ok: "rng_ok ops" and sh: "sample_shuffle ops g = Inr g'"
    and n: "num_samples g = length (samples g)"
    and t: "length (sequence_indices g) = batches_per_epoch g"
      "\<forall>p\<in>set (sequence_indices g). length p = batch_size g"
  shows "same_config g g' \<and> sample_ready g'"
proof -
  define r where "r = batches_per_epoch g"
  define c where "c = batch_size g"
  define m where "m = subsample_length g"
  from sample_shuffle_Inr[OF sh t] obtain si s1 lengths qidx s2 where
    i: "integers ops (int (num_samples g)) (r * c) (rng g) = Inr (si, s1)" and
    l: "take_lengths (sample_lengths g) (reshape2 r c si) = Inr lengths" and
    q: "collect_st (\<lambda>i. collect_st (draw_keys ops m lengths i) [0..<c]) [0..<r] s1
          = Inr (qidx, s2)" and
    cfg: "same_config g g'" and
    sidx: "sample_indices g' = reshape2 r c si" and
    qidx: "sequence_indices g' = qidx" and
    aug: "augment g \<longrightarrow> augment_offsets g' =
              Some (reshape3 r c m (fst (uniform ops (r * c * m) s2)))"
    unfolding r_def c_def m_def by blast
  have rc: "batches_per_epoch g' = r" "batch_size g' = c" "subsample_length g' = m"
    using cfg same_config_subsample[OF cfg] by (simp_all add: same_config_def r_def c_def m_def)
  from rng_ok_integers[OF ok i] have si: "length si = r * c"
      "\<forall>x\<in>set si. 0 \<le> x \<and> x < int (num_samples g)" by simp_all
  have s2: "shape2 r c (reshape2 r c si)" using si(1) by (rule reshape2_shape)
  have sok: "sample_indices_ok g'"
    unfolding sample_indices_ok_def rc sidx
    using cfg n s2 si(2) by (auto simp: same_config_def dest!: reshape2_set)
  from collect_st_Inr[OF q] have ql: "length qidx = r"
      "\<forall>b<r. \<exists>a a'. collect_st (draw_keys ops m lengths b) [0..<c] a = Inr (qidx ! b, a')"
    by simp_all
  have slot: "length (qidx ! b) = c \<and>
      (\<forall>i<c. \<exists>keys. length keys = m \<and> distinct keys \<and> set keys \<subseteq> {0..<lengths ! b ! i} \<and>
          qidx ! b ! i = map wrap32 keys)" if "b < r" for b
  proof -
    from ql(2) that obtain a a' where
      "collect_st (draw_keys ops m lengths b) [0..<c] a = Inr (qidx ! b, a')" by blast
    from collect_st_Inr[OF this] have x: "length (qidx ! b) = c"
        "\<forall>i<c. \<exists>u v. draw_keys ops m lengths b i u = Inr (qidx ! b ! i, v)"
      by simp_all
    show ?thesis using x draw_keys_Inr[OF ok] by blast
  qed
  have qshape: "shape3 r c m (sequence_indices g')"
    unfolding shape3_def shape2_def qidx
  proof (intro conjI ballI)
    show "length qidx = r" by (rule ql(1))
  next
    fix p assume "p \<in> set qidx"
    then obtain b where b: "b < r" "p = qidx ! b" using ql(1) by (auto simp: in_set_conv_nth)
    show "length p = c" using slot[OF b(1)] b(2) by simp
    fix row assume "row \<in> set p"
    then obtain i where "i < c" "row = qidx ! b ! i"
      using slot[OF b(1)] b(2) by (auto simp: in_set_conv_nth)
    then show "length row = m" using slot[OF b(1)] by auto
  qed
  have drawn: "slot_drawn g' b i" if "b < r" "i < c" for b i
  proof -
    have "b < length (reshape2 r c si)" "i < length (reshape2 r c si ! b)"
      using s2 that by (simp_all add: shape2_def)
    from take_lengths_Inr(3)[OF l this]
    have "py_index (sample_lengths g') (sample_indices g' ! b ! i) = Inr (lengths ! b ! i)"
      using cfg by (simp add: sidx same_config_def)
    then show ?thesis unfolding slot_drawn_def qidx using slot[OF that(1)] that(2) by blast
  qed
  have afr: "fractions3_ok r c m (augment_offsets g')" if "augment g'"
  proof -
    define os where "os = fst (uniform ops (r * c * m) s2)"
    from rng_ok_uniform[OF ok, of "r * c * m" s2]
    have os: "length os = r * c * m" "\<forall>u\<in>set os. 0 \<le> u \<and> u < 1" by (simp_all add: os_def)
    have "augment_offsets g' = Some (reshape3 r c m os)"
      using aug that cfg by (simp add: os_def same_config_def)
    moreover have "shape3 r c m (reshape3 r c m os)" using os(1) by (rule reshape3_shape)
    moreover have "\<forall>p\<in>set (reshape3 r c m os). \<forall>row\<in>set p. \<forall>u\<in>set row. 0 \<le> u \<and> u < 1"
      using os(2) by (auto dest!: reshape3_row_set)
    ultimately show ?thesis by (simp add: fractions3_ok_def)
  qed
  show ?thesis
    unfolding sample_ready_def rc using cfg sok qshape drawn afr by blast
qed

lemma sample_ready_table:
  assumes "sample_ready g"
  shows "length (sequence_indices g) = batches_per_epoch g"
    and "\<forall>p\<in>set (sequence_indices g). length p = batch_size g"
    and "num_samples g = length (samples g)"
  using assms by (auto simp: sample_ready_def shape3_def shape2_def sample_indices_ok_def)

lemma sample_epochs_ready:
  assumes ok: "rng_ok ops"
  shows "sample_ready g \<Longrightarrow> sample_epochs ops e g = Inr g' \<Longrightarrow> same_config g g' \<and> sample_ready g'"
proof (induction e arbitrary: g)
  case 0
  then show ?case by simp
next
  case (Suc e)
  from Suc.prems(2) obtain g1 where g1: "sample_shuffle ops g = Inr g1"
      "sample_epochs ops e g1 = Inr g'"
    by (auto simp: sample_on_epoch_end_def bind_eq_Inr)
  note tb = sample_ready_table[OF Suc.prems(1)]
  from sample_shuffle_ready[OF ok g1(1) tb(3) tb(1) tb(2)]
  have a: "same_config g g1" "sample_ready g1" by simp_all
  from Suc.IH[OF a(2) g1(2)] have "same_config g1 g'" "sample_ready g'" by simp_all
  then show ?case using a(1) same_config_trans by blast
qed

lemma DnaSampleGenerator_init_ready:
  assumes ok: "rng_ok ops"
    and i: "DnaSampleGenerator_init ops archives gsize seq_len k bs bpe aug bal lbl seed junk = Inr g"
  shows "sample_ready g \<and> samples g = archives \<and> sequence_length g = seq_len \<and> kmer g = k \<and>
         batch_size g = bs \<and> batches_per_epoch g = bpe \<and> augment g = aug \<and> balance g = bal \<and>
         labels g = lbl \<and> subsample_length g = gsize \<and>
         init_sample_lengths archives bal = Inr (sample_lengths g)"
proof -
  from i obtain lens g0 where
    l: "init_sample_lengths archives bal = Inr lens" and
    g0: "g0 = \<lparr>samples = archives, sample_lengths = lens, num_samples = length archives,
          sequence_length = seq_len, kmer = k, augment = aug, batch_size = bs,
          batches_per_epoch = bpe, balance = bal, labels = lbl, rng = seed,
          sample_indices = [], sequence_indices = np_empty3 bpe bs gsize junk,
          augment_offsets = None, subsample_length = gsize\<rparr>" and
    s: "sample_shuffle ops g0 = Inr g"
    by (auto simp: DnaSampleGenerator_init_def bind_eq_Inr)
  have "num_samples g0 = length (samples g0)"
    "length (sequence_indices g0) = batches_per_epoch g0"
    "\<forall>p\<in>set (sequence_indices g0). length p = batch_size g0"
    by (simp_all add: g0 np_empty3_plane_length)
  from sample_shuffle_ready[OF ok s this] have c: "same_config g0 g" "sample_ready g" by simp_all
  have "subsample_length g = gsize" using same_config_subsample[OF c(1)] by (simp add: g0)
  then show ?thesis using l c by (simp add: same_config_def g0)
qed

section \<open>Generators in use\<close>

lemma generator_state:
  assumes "rng_ok ops"
    and "DnaSequenceGenerator_init ops archives seq_len k bs bpe aug bal lbl seed = Inr g0"
    and "epochs ops e g0 = Inr g"
  shows "ready g" "samples g = archives" "sequence_length g = seq_len" "kmer g = k"
    "batch_size g = bs" "batches_per_epoch g = bpe" "augment g = aug" "balance g = bal"
    "labels g = lbl" "init_sample_lengths archives bal = Inr (sample_lengths g)"
proof -
  note a = DnaSequenceGenerator_init_ready[OF assms(1,2)]
  from a have r0: "ready g0" by simp
  from epochs_ready[OF assms(1) r0 assms(3)] have b: "same_config g0 g" "ready g" by simp_all
  show "ready g" by (rule b(2))
  show "samples g = archives" "sequence_length g = seq_len" "kmer g = k"
    "batch_size g = bs" "batches_per_epoch g = bpe" "augment g = aug" "balance g = bal"
    "labels g = lbl" "init_sample_lengths archives bal = Inr (sample_lengths g)"
    using a b(1) by (simp_all add: same_config_def)
qed

lemma sample_generator_state:
  assumes "rng_ok ops"
    and "DnaSampleGenerator_init ops archives gsize seq_len k bs bpe aug bal lbl seed junk = Inr g0"
    and "sample_epochs ops e g0 = Inr g"
  shows "sample_ready g" "samples g = archives" "sequence_length g = seq_len" "kmer g = k"
    "batch_size g = bs" "batches_per_epoch g = bpe" "augment g = aug" "balance g = bal"
    "labels g = lbl" "subsample_length g = gsize"
    "init_sample_lengths archives bal = Inr (sample_lengths g)"
proof -
  note a = DnaSampleGenerator_init_ready[OF assms(1,2)]
  from a have r0: "sample_ready g0" by simp
  from sample_epochs_ready[OF assms(1) r0 assms(3)]
  have b: "same_config g0 g" "sample_ready g" by simp_all
  show "sample_ready g" by (rule b(2))
  show "samples g = archives" "sequence_length g = seq_len" "kmer g = k"
    "batch_size g = bs" "batches_per_epoch g = bpe" "augment g = aug" "balance g = bal"
    "labels g = lbl" "init_sample_lengths archives bal = Inr (sample_lengths g)"
    using a b(1) by (simp_all add: same_config_def)
  show "subsample_length g = gsize" using a same_config_subsample[OF b(1)] by simp
qed

lemma shape2_row:
  assumes "shape2 r c t" "0 \<le> b" "b < int r"
  shows "\<exists>row. py_index t b = Inr row \<and> length row = c"
proof -
  have "py_index t b = Inr (t ! nat b)" using assms by (simp add: py_index_nonneg shape2_def)
  moreover have "t ! nat b \<in> set t" using assms by (simp add: shape2_def)
  ultimately show ?thesis using assms(1) by (simp add: shape2_def)
qed

lemma shape3_plane:
  assumes "shape3 r c m t" "0 \<le> b" "b < int r"
  shows "\<exists>p. py_index t b = Inr p \<and> shape2 c m p"
proof -
  have "py_index t b = Inr (t ! nat b)" using assms by (simp add: py_index_nonneg shape3_def)
  moreover have "t ! nat b \<in> set t" using assms by (simp add: shape3_def)
  ultimately show ?thesis using assms(1) by (simp add: shape3_def)
qed

text \<open>
  The index tables.  When a constructor returns, and after any number \<open>e\<close> of epoch
  boundaries, the sample and sequence index tables have shape
  \<open>(batches_per_epoch, batch_size)\<close>, with a trailing \<open>group_size\<close> dimension on the
  sequence indices of a sample generator, the table of fractions has the same shape when
  augmentation is on, and every valid batch index finds its rows in the tables.  For
  \<open>e = 0\<close> this is the generator as the constructor returns it, with no call of
  \<open>on_epoch_end\<close>.
\<close>

theorem tables_built_by_constructor:
  assumes "rng_ok ops"
  shows "(DnaSequenceGenerator_init ops archives seq_len k bs bpe aug bal lbl seed = Inr g0 \<and>
          epochs ops e g0 = Inr g \<longrightarrow>
            batches_per_epoch g = bpe \<and> batch_size g = bs \<and>
            shape2 bpe bs (sample_indices g) \<and> shape2 bpe bs (sequence_indices g) \<and>
            (aug \<longrightarrow> fractions_ok bpe bs (augment_offsets g)) \<and>
            (\<forall>b. 0 \<le> b \<and> b < int bpe \<longrightarrow>
               (\<exists>sr qr. py_index (sample_indices g) b = Inr sr \<and> length sr = bs \<and>
                  py_index (sequence_indices g) b = Inr qr \<and> length qr = bs))) \<and>
         (DnaSampleGenerator_init ops archives gsize seq_len k bs bpe aug bal lbl seed junk = Inr h0 \<and>
          sample_epochs ops e h0 = Inr h \<longrightarrow>
            batches_per_epoch h = bpe \<and> batch_size h = bs \<and> subsample_length h = gsize \<and>
            shape2 bpe bs (sample_indices h) \<and> shape3 bpe bs gsize (sequence_indices h) \<and>
            (aug \<longrightarrow> fractions3_ok bpe bs gsize (augment_offsets h)) \<and>
            (\<forall>b. 0 \<le> b \<and> b < int bpe \<longrightarrow>
               (\<exists>sr qr. py_index (sample_indices h) b = Inr sr \<and> length sr = bs \<and>
                  py_index (sequence_indices h) b = Inr qr \<and> shape2 bs gsize qr)))"
proof (intro conjI impI)
  assume a: "DnaSequenceGenerator_init ops archives seq_len k bs bpe aug bal lbl seed = Inr g0 \<and>
      epochs ops e g0 = Inr g"
  note s = generator_state[OF assms conjunct1[OF a] conjunct2[OF a]]
  from s(1) have r: "shape2 bpe bs (sample_indices g)" "shape2 bpe bs (sequence_indices g)"
      "aug \<longrightarrow> fractions_ok bpe bs (augment_offsets g)"
    unfolding ready_def sample_indices_ok_def s by simp_all
  show "batches_per_epoch g = bpe" "batch_size g = bs" by (rule s)+
  show "shape2 bpe bs (sample_indices g)" "shape2 bpe bs (sequence_indices g)" by (rule r)+
  show "fractions_ok bpe bs (augment_offsets g)" if aug using r(3) that by simp
  show "\<forall>b. 0 \<le> b \<and> b < int bpe \<longrightarrow>
      (\<exists>sr qr. py_index (sample_indices g) b = Inr sr \<and> length sr = bs \<and>
         py_index (sequence_indices g) b = Inr qr \<and> length qr = bs)"
    using shape2_row[OF r(1)] shape2_row[OF r(2)] by blast
next
  assume a: "DnaSampleGenerator_init ops archives gsize seq_len k bs bpe aug bal lbl seed junk = Inr h0 \<and>
      sample_epochs ops e h0 = Inr h"
  note s = sample_generator_state[OF assms conjunct1[OF a] conjunct2[OF a]]
  from s(1) have r: "shape2 bpe bs (sample_indices h)" "shape3 bpe bs gsize (sequence_indices h)"
      "aug \<longrightarrow> fractions3_ok bpe bs gsize (augment_offsets h)"
    unfolding sample_ready_def sample_indices_ok_def s by simp_all
  show "batches_per_epoch h = bpe" "batch_size h = bs" "subsample_length h = gsize" by (rule s)+
  show "shape2 bpe bs (sample_indices h)" "shape3 bpe bs gsize (sequence_indices h)" by (rule r)+
  show "fractions3_ok bpe bs gsize (augment_offsets h)" if aug using r(3) that by simp
  show "\<forall>b. 0 \<le> b \<and> b < int bpe \<longrightarrow>
      (\<exists>sr qr. py_index (sample_indices h) b = Inr sr \<and> length sr = bs \<and>
         py_index (sequence_indices h) b = Inr qr \<and> shape2 bs gsize qr)"
    using shape2_row[OF r(1)] shape3_plane[OF r(2)] by blast
qed

lemma rng_ok_demo: "rng_ok demo_rng"
  unfolding rng_ok_def
proof (intro conjI allI impI)
  fix high :: int and n s :: nat and xs s'
  assume a: "integers demo_rng high n s = Inr (xs, s')"
  then have h: "0 < high" and x: "xs = map (\<lambda>i. int ((s + i) mod nat high)) [0..<n]"
    by (auto simp: demo_rng_def split: if_splits)
  show "length xs = n" by (simp add: x)
  show "\<forall>x\<in>set xs. 0 \<le> x \<and> x < high"
  proof
    fix y assume "y \<in> set xs"
    then obtain i where "y = int ((s + i) mod nat high)" by (auto simp: x)
    moreover have "(s + i) mod nat high < nat high" using h by simp
    ultimately show "0 \<le> y \<and> y < high" by linarith
  qed
next
  fix n s :: nat
  show "length (fst (uniform demo_rng n s)) = n" by (simp add: demo_rng_def)
  show "\<forall>u\<in>set (fst (uniform demo_rng n s)). 0 \<le> u \<and> u < 1"
  proof
    fix u assume "u \<in> set (fst (uniform demo_rng n s))"
    then obtain i where u: "u = real ((s + i) mod 4) / 4" by (auto simp: demo_rng_def)
    have "(s + i) mod 4 < 4" by simp
    then have "real ((s + i) mod 4) < 4" by linarith
    then show "0 \<le> u \<and> u < 1" by (simp add: u)
  qed
next
  fix pop :: "int list" and k s :: nat and xs s'
  assume a: "choice demo_rng pop k s = Inr (xs, s')"
  then have k: "k \<le> length pop" and x: "xs = map (\<lambda>i. pop ! (length pop - 1 - i)) [0..<k]"
    by (auto simp: demo_rng_def split: if_splits)
  show "length xs = k" by (simp add: x)
  show "set xs \<subseteq> set pop"
  proof
    fix y assume "y \<in> set xs"
    then obtain i where i: "i < k" "y = pop ! (length pop - 1 - i)" by (auto simp: x)
    then have "length pop - 1 - i < length pop" using k by simp
    then show "y \<in> set pop" using i(2) by simp
  qed
  show "distinct xs" if d: "distinct pop"
  proof -
    have "xs ! i \<noteq> xs ! j" if "i < k" "j < k" "i \<noteq> j" for i j
    proof -
      have "length pop - 1 - i < length pop" "length pop - 1 - j < length pop"
        "length pop - 1 - i \<noteq> length pop - 1 - j"
        using that k by simp_all
      then have "pop ! (length pop - 1 - i) \<noteq> pop ! (length pop - 1 - j)"
        using d by (simp add: nth_eq_iff_index_eq)
      then show ?thesis using that by (simp add: x)
    qed
    then show ?thesis by (simp add: distinct_conv_nth x)
  qed
qed

lemma demo_generator_init:
  "DnaSequenceGenerator_init demo_rng [demo_archive, demo_archive] 3 2 2 2 True False None 0
     = Inr demo_generator"
  by code_simp

lemma demo_sample_generator_init:
  "DnaSampleGenerator_init demo_rng [demo_archive, demo_archive] 2 3 2 2 2 False True
     (Some SampleIds) 0 zero_junk = Inr demo_sample_generator"
  by code_simp

theorem tables_built_by_constructor_witness:
  "rng_ok demo_rng \<and>
   DnaSequenceGenerator_init demo_rng [demo_archive, demo_archive] 3 2 2 2 True False None 0
     = Inr demo_generator \<and>
   epochs demo_rng 0 demo_generator = Inr demo_generator \<and>
   shape2 2 2 (sample_indices demo_generator) \<and> shape2 2 2 (sequence_indices demo_generator) \<and>
   fractions_ok 2 2 (augment_offsets demo_generator) \<and>
   (\<exists>sr qr. py_index (sample_indices demo_generator) 1 = Inr sr \<and> length sr = 2 \<and>
      py_index (sequence_indices demo_generator) 1 = Inr qr \<and> length qr = 2) \<and>
   DnaSampleGenerator_init demo_rng [demo_archive, demo_archive] 2 3 2 2 2 False True
     (Some SampleIds) 0 zero_junk = Inr demo_sample_generator \<and>
   sample_epochs demo_rng 0 demo_sample_generator = Inr demo_sample_generator \<and>
   shape2 2 2 (sample_indices demo_sample_generator) \<and>
   shape3 2 2 2 (sequence_indices demo_sample_generator) \<and>
   (\<exists>sr qr. py_index (sample_indices demo_sample_generator) 1 = Inr sr \<and> length sr = 2 \<and>
      py_index (sequence_indices demo_sample_generator) 1 = Inr qr \<and> shape2 2 2 qr)"
proof -
  have e: "epochs demo_rng 0 demo_generator = Inr demo_generator"
    "sample_epochs demo_rng 0 demo_sample_generator = Inr demo_sample_generator" by simp_all
  note t1 = tables_built_by_constructor[OF rng_ok_demo, THEN conjunct1, rule_format,
      OF conjI[OF demo_generator_init e(1)]]
  note t2 = tables_built_by_constructor[OF rng_ok_demo, THEN conjunct2, rule_format,
      OF conjI[OF demo_sample_generator_init e(2)]]
  have b: "(0::int) \<le> 1 \<and> (1::int) < int 2" by simp
  from t1 have 1: "shape2 2 2 (sample_indices demo_generator)"
      "shape2 2 2 (sequence_indices demo_generator)"
      "fractions_ok 2 2 (augment_offsets demo_generator)" by simp_all
  from t1 b have 2: "\<exists>sr qr. py_index (sample_indices demo_generator) 1 = Inr sr \<and> length sr = 2 \<and>
      py_index (sequence_indices demo_generator) 1 = Inr qr \<and> length qr = 2" by blast
  from t2 have 3: "shape2 2 2 (sample_indices demo_sample_generator)"
      "shape3 2 2 2 (sequence_indices demo_sample_generator)" by simp_all
  from t2 b have 4: "\<exists>sr qr. py_index (sample_indices demo_sample_generator) 1 = Inr sr \<and>
      length sr = 2 \<and> py_index (sequence_indices demo_sample_generator) 1 = Inr qr \<and>
      shape2 2 2 qr" by blast
  show ?thesis
    using rng_ok_demo demo_generator_init demo_sample_generator_init e 1 2 3 4 by blast
qed

section \<open>Balancing and group keys\<close>

lemma np_min_Inr:
  assumes "np_min xs = Inr m"
  shows "xs \<noteq> [] \<and> m = Min (set xs)"
proof (cases xs)
  case Nil
  then show ?thesis using assms by (simp add: np_min_def)
next
  case (Cons a list)
  from assms have "m = fold min list a" by (simp add: np_min_def Cons)
  also have "\<dots> = Min (set (a # list))" by (rule Min.set_eq_fold[symmetric])
  finally show ?thesis using Cons by simp
qed

lemma init_sample_lengths_balance:
  assumes "init_sample_lengths archives True = Inr lens"
  shows "archives \<noteq> []" and "\<forall>l\<in>set lens. l = Min (lmdb_len ` set archives)"
proof -
  from assms obtain m where m: "np_min (map lmdb_len archives) = Inr m"
      "lens = map (\<lambda>_. m) (map lmdb_len archives)"
    by (auto simp: init_sample_lengths_def Let_def bind_eq_Inr)
  from np_min_Inr[OF m(1)] show "archives \<noteq> []" by simp
  from np_min_Inr[OF m(1)] have "m = Min (lmdb_len ` set archives)" by simp
  then show "\<forall>l\<in>set lens. l = Min (lmdb_len ` set archives)" by (auto simp: m(2))
qed



lemma wrap32_le: "0 \<le> x \<Longrightarrow> wrap32 x \<le> x"
proof -
  assume "0 \<le> x"
  then have "(x + 2 ^ 31) mod 2 ^ 32 \<le> x + 2 ^ 31"
    by (intro zmod_le_nonneg_dividend) simp
  then show ?thesis by (simp add: wrap32_def)
qed

lemma shape3_slot:
  assumes "shape3 r c m t" "p \<in> set t" "row \<in> set p"
  shows "\<exists>b i. b < r \<and> i < c \<and> row = t ! b ! i"
proof -
  from assms(1,2) obtain b where b: "b < r" "p = t ! b"
    by (auto simp: shape3_def in_set_conv_nth)
  have "length p = c" using assms(1,2) by (simp add: shape3_def shape2_def)
  then obtain i where "i < c" "row = p ! i" using assms(3) by (auto simp: in_set_conv_nth)
  then show ?thesis using b by blast
qed

text \<open>
  C5 (as amended).  Under \<open>balance\<close>, after construction and any number of epoch
  boundaries, every effective archive length equals the minimum of the archive lengths.
  In a sample generator every sequence key in the table is strictly below that minimum.
  In a sequence generator every sequence key is strictly below that minimum when every
  archive holds at least one sequence; with an empty archive the minimum is \<open>0\<close> and the
  key drawn is \<open>0\<close>.
\<close>

theorem balanced_keys_below_minimum:
  assumes "rng_ok ops"
  shows "(DnaSequenceGenerator_init ops archives seq_len k bs bpe aug True lbl seed = Inr g0 \<and>
          epochs ops e g0 = Inr g \<longrightarrow>
            (\<forall>l\<in>set (sample_lengths g). l = Min (lmdb_len ` set archives)) \<and>
            ((\<forall>a\<in>set archives. 1 \<le> lmdb_len a) \<longrightarrow>
               (\<forall>row\<in>set (sequence_indices g). \<forall>q\<in>set row. q < Min (lmdb_len ` set archives)))) \<and>
         (DnaSampleGenerator_init ops archives gsize seq_len k bs bpe aug True lbl seed junk = Inr h0 \<and>
          sample_epochs ops e h0 = Inr h \<longrightarrow>
            (\<forall>l\<in>set (sample_lengths h). l = Min (lmdb_len ` set archives)) \<and>
            (\<forall>p\<in>set (sequence_indices h). \<forall>row\<in>set p. \<forall>q\<in>set row.
               q < Min (lmdb_len ` set archives)))"
proof (intro conjI impI)
  assume a: "DnaSequenceGenerator_init ops archives seq_len k bs bpe aug True lbl seed = Inr g0 \<and>
      epochs ops e g0 = Inr g"
  note s = generator_state[OF assms conjunct1[OF a] conjunct2[OF a]]
  note b = init_sample_lengths_balance[OF s(10)]
  show "\<forall>l\<in>set (sample_lengths g). l = Min (lmdb_len ` set archives)" by (rule b(2))
  assume ne: "\<forall>a\<in>set archives. 1 \<le> lmdb_len a"
  have "Min (lmdb_len ` set archives) \<in> lmdb_len ` set archives"
    using b(1) by (intro Min_in) simp_all
  then have m: "1 \<le> Min (lmdb_len ` set archives)" using ne by auto
  show "\<forall>row\<in>set (sequence_indices g). \<forall>q\<in>set row. q < Min (lmdb_len ` set archives)"
  proof (intro ballI)
    fix row q assume "row \<in> set (sequence_indices g)" "q \<in> set row"
    with s(1) obtain l u where lu: "l \<in> set (sample_lengths g)" "0 \<le> u" "u < 1"
        "q = py_int (real_of_int l * u)"
      unfolding ready_def by blast
    have "l = Min (lmdb_len ` set archives)" using b(2) lu(1) by simp
    then show "q < Min (lmdb_len ` set archives)"
      using py_int_bound[OF lu(2,3), of l] m lu(4) by simp
  qed
next
  assume a: "DnaSampleGenerator_init ops archives gsize seq_len k bs bpe aug True lbl seed junk = Inr h0 \<and>
      sample_epochs ops e h0 = Inr h"
  note s = sample_generator_state[OF assms conjunct1[OF a] conjunct2[OF a]]
  note b = init_sample_lengths_balance[OF s(11)]
  show "\<forall>l\<in>set (sample_lengths h). l = Min (lmdb_len ` set archives)" by (rule b(2))
  show "\<forall>p\<in>set (sequence_indices h). \<forall>row\<in>set p. \<forall>q\<in>set row. q < Min (lmdb_len ` set archives)"
  proof (intro ballI)
    fix p row q
    assume p: "p \<in> set (sequence_indices h)" "row \<in> set p" "q \<in> set row"
    from s(1) have sh: "shape3 bpe bs gsize (sequence_indices h)"
      and dr: "\<forall>b<bpe. \<forall>i<bs. slot_drawn h b i"
      unfolding sample_ready_def s by simp_all
    from shape3_slot[OF sh p(1,2)] obtain b i where bi: "b < bpe" "i < bs"
        "row = sequence_indices h ! b ! i" by blast
    from dr bi(1,2) obtain n keys where nk:
        "py_index (sample_lengths h) (sample_indices h ! b ! i) = Inr n"
        "set keys \<subseteq> {0..<n}" "sequence_indices h ! b ! i = map wrap32 keys"
      unfolding slot_drawn_def by blast
    have "n \<in> set (sample_lengths h)" using nk(1) by (rule py_index_Inr_set)
    then have n: "n = Min (lmdb_len ` set archives)" using b(2) by simp
    from p(3) bi(3) nk(3) obtain key where key: "key \<in> set keys" "q = wrap32 key" by auto
    then have "0 \<le> key" "key < n" using nk(2) by auto
    then show "q < Min (lmdb_len ` set archives)" using wrap32_le[of key] key(2) n by simp
  qed
qed

lemma demo_plain_generator_init:
  "DnaSequenceGenerator_init demo_rng [demo_archive, demo_archive] 3 2 2 2 False True
     (Some SampleIds) 0 = Inr demo_plain_generator"
  by code_simp

lemma balanced_generator_init:
  "DnaSequenceGenerator_init demo_rng [long_archive, demo_archive] 3 2 2 2 False True None 0
     = Inr balanced_generator"
  by code_simp

lemma balanced_sample_generator_init:
  "DnaSampleGenerator_init demo_rng [long_archive, demo_archive] 2 3 2 2 2 True True None 0
     zero_junk = Inr balanced_sample_generator"
  by code_simp

lemma long_archive_min: "Min (lmdb_len ` set [long_archive, demo_archive]) = 3"
  by (simp add: lmdb_len_def demo_archive_def long_archive_def)

text \<open>
  The instance: an archive of five and an archive of three sequences, so that balancing
  clamps the first effective length from \<open>5\<close> to \<open>3\<close>.
\<close>

theorem balanced_keys_below_minimum_witness:
  "rng_ok demo_rng \<and>
   lmdb_len long_archive = 5 \<and> lmdb_len demo_archive = 3 \<and>
   DnaSequenceGenerator_init demo_rng [long_archive, demo_archive] 3 2 2 2 False True None 0
     = Inr balanced_generator \<and>
   epochs demo_rng 0 balanced_generator = Inr balanced_generator \<and>
   list_all (\<lambda>a. 1 \<le> lmdb_len a) [long_archive, demo_archive] \<and>
   list_all (\<lambda>l. l = 3) (sample_lengths balanced_generator) \<and>
   list_all (list_all (\<lambda>q. q < 3)) (sequence_indices balanced_generator) \<and>
   DnaSampleGenerator_init demo_rng [long_archive, demo_archive] 2 3 2 2 2 True True None 0
     zero_junk = Inr balanced_sample_generator \<and>
   sample_epochs demo_rng 0 balanced_sample_generator = Inr balanced_sample_generator \<and>
   list_all (\<lambda>l. l = 3) (sample_lengths balanced_sample_generator) \<and>
   list_all (list_all (list_all (\<lambda>q. q < 3))) (sequence_indices balanced_sample_generator)"
proof -
  have e: "epochs demo_rng 0 balanced_generator = Inr balanced_generator"
    "sample_epochs demo_rng 0 balanced_sample_generator = Inr balanced_sample_generator"
    by simp_all
  have len: "lmdb_len long_archive = 5" "lmdb_len demo_archive = 3"
    by (simp_all add: lmdb_len_def demo_archive_def long_archive_def)
  have ne: "\<forall>a\<in>set [long_archive, demo_archive]. 1 \<le> lmdb_len a"
    by (simp add: len)
  note t1 = balanced_keys_below_minimum[OF rng_ok_demo, THEN conjunct1, rule_format,
      OF conjI[OF balanced_generator_init e(1)]]
  note t2 = balanced_keys_below_minimum[OF rng_ok_demo, THEN conjunct2, rule_format,
      OF conjI[OF balanced_sample_generator_init e(2)]]
  from t1 ne have 1: "list_all (\<lambda>l. l = 3) (sample_lengths balanced_generator)"
      "list_all (list_all (\<lambda>q. q < 3)) (sequence_indices balanced_generator)"
    unfolding long_archive_min list_all_iff by blast+
  from t2 have 2: "list_all (\<lambda>l. l = 3) (sample_lengths balanced_sample_generator)"
      "list_all (list_all (list_all (\<lambda>q. q < 3))) (sequence_indices balanced_sample_generator)"
    unfolding long_archive_min list_all_iff by blast+
  have "list_all (\<lambda>a. 1 \<le> lmdb_len a) [long_archive, demo_archive]"
    using ne by (simp add: list_all_iff)
  then show ?thesis
    using rng_ok_demo balanced_generator_init balanced_sample_generator_init e len 1 2 by blast
qed

text \<open>
  The claim as stated fails for a sequence generator over an archive of three sequences
  and an empty archive: the minimum of the lengths is \<open>0\<close>, every effective length is
  \<open>0\<close>, and the key drawn for every slot is \<open>0\<close>, which is not strictly below the minimum.
\<close>

theorem balanced_empty_archive_counterexample:
  "DnaSequenceGenerator_init demo_rng [demo_archive, []] 3 2 2 1 False True None 0
     = Inr empty_archive_generator \<and>
   epochs demo_rng 0 empty_archive_generator = Inr empty_archive_generator \<and>
   Min (lmdb_len ` set [demo_archive, []]) = 0 \<and>
   sample_lengths empty_archive_generator = [0, 0] \<and>
   sequence_indices empty_archive_generator ! 0 ! 0 = 0 \<and>
   \<not> (sequence_indices empty_archive_generator ! 0 ! 0 < Min (lmdb_len ` set [demo_archive, []]))"
proof -
  have i: "DnaSequenceGenerator_init demo_rng [demo_archive, []] 3 2 2 1 False True None 0
      = Inr empty_archive_generator"
    by code_simp
  have m: "Min (lmdb_len ` set [demo_archive, []]) = 0"
    by (simp add: lmdb_len_def demo_archive_def)
  show ?thesis using i m by (simp add: empty_archive_generator_def)
qed









section \<open>Batch indices\<close>

lemma bind_not_error:
  "m \<noteq> Inl e \<Longrightarrow> (\<And>x. m = Inr x \<Longrightarrow> f x \<noteq> Inl e) \<Longrightarrow> bind m f \<noteq> Inl e"
  by (cases m) simp_all

lemma map_result_not_error:
  "(\<And>x. x \<in> set xs \<Longrightarrow> f x \<noteq> Inl e) \<Longrightarrow> map_result f xs \<noteq> Inl e"
  using map_result_error by fastforce

lemma assign_row_error: "assign_row n src \<noteq> Inl IndexError"
  by (simp add: assign_row_def)

lemma lmdb_get_error: "lmdb_get a key \<noteq> Inl IndexError"
  by (simp add: lmdb_get_def split: option.splits)

lemma to_kmers_error: "to_kmers k x \<noteq> Inl IndexError"
  by (simp add: to_kmers_def np_convolve_valid_def Let_def split: prod.splits)

lemma kmer_row_error: "kmer_row k w x \<noteq> Inl IndexError"
  unfolding kmer_row_def by (intro bind_not_error to_kmers_error assign_row_error)

lemma batch_to_kmers_error: "batch_to_kmers g batch junk \<noteq> Inl IndexError"
  unfolding batch_to_kmers_closed by (simp add: map_result_not_error kmer_row_error)

lemma py_index_range_Inr:
  assumes "- int (length xs) \<le> b" "b < int (length xs)"
  shows "\<exists>x. py_index xs b = Inr x \<and> x \<in> set xs"
proof -
  from py_index_in_range[OF assms] obtain x where x: "py_index xs b = Inr x" by blast
  then have "x \<in> set xs" by (rule py_index_Inr_set)
  then show ?thesis using x by simp
qed

lemma compute_augmented_offset_ready:
  assumes "fractions_ok r c (augment_offsets g)" "- int r \<le> b" "b < int r" "i < c"
  shows "\<exists>off. compute_augmented_offset g n (b, int i) = Inr off"
proof -
  from assms(1) obtain tbl where t: "augment_offsets g = Some tbl" "shape2 r c tbl"
    by (auto simp: fractions_ok_def)
  have "length tbl = r" using t(2) by (simp add: shape2_def)
  with py_index_range_Inr[of tbl b] assms(2,3) obtain row where
    row: "py_index tbl b = Inr row" "row \<in> set tbl" by auto
  have "length row = c" using t(2) row(2) by (simp add: shape2_def)
  then have "py_index row (int i) = Inr (row ! i)" using assms(4) by (simp add: py_index_nat)
  then show ?thesis by (simp add: compute_augmented_offset_def t(1) row(1))
qed

lemma augment_offset_fn_error:
  assumes "ready g" "- int (batches_per_epoch g) \<le> b" "b < int (batches_per_epoch g)"
    "i < batch_size g"
  shows "augment_offset_fn g style n (b, int i) \<noteq> Inl IndexError"
proof (cases "augment g")
  case True
  then have "fractions_ok (batches_per_epoch g) (batch_size g) (augment_offsets g)"
    using assms(1) by (simp add: ready_def)
  from compute_augmented_offset_ready[OF this assms(2,3,4), of n]
  show ?thesis using True by (auto simp: augment_offset_fn_def)
next
  case False
  then show ?thesis by (cases style) (simp_all add: augment_offset_fn_def)
qed

lemma fetch_row_error:
  assumes r: "ready g" and b: "- int (batches_per_epoch g) \<le> b" "b < int (batches_per_epoch g)"
    and sr: "sr \<in> set (sample_indices g)" and qr: "qr \<in> set (sequence_indices g)"
    and i: "i < batch_size g"
  shows "fetch_row g b sr qr i \<noteq> Inl IndexError"
proof -
  from r sr have s: "length sr = batch_size g"
      "\<forall>x\<in>set sr. 0 \<le> x \<and> x < int (length (samples g))"
    by (auto simp: ready_def sample_indices_ok_def shape2_def)
  from r qr have q: "length qr = batch_size g" by (auto simp: ready_def shape2_def)
  have 1: "py_index sr (int i) = Inr (sr ! i)" using s(1) i by (simp add: py_index_nat)
  have "sr ! i \<in> set sr" using s(1) i by simp
  then have "0 \<le> sr ! i" "sr ! i < int (length (samples g))" using s(2) by auto
  then have 2: "py_index (samples g) (sr ! i) = Inr (samples g ! nat (sr ! i))"
    by (rule py_index_nonneg)
  have 3: "py_index qr (int i) = Inr (qr ! i)" using q i by (simp add: py_index_nat)
  show ?thesis
    unfolding fetch_row_def
    by (simp add: 1 2 3)
       (intro bind_not_error lmdb_get_error assign_row_error augment_offset_fn_error[OF r b i])
qed

lemma generate_batch_error:
  assumes r: "ready g" and b: "- int (batches_per_epoch g) \<le> b" "b < int (batches_per_epoch g)"
  shows "generate_batch g b junk \<noteq> Inl IndexError"
proof -
  have l: "length (sample_indices g) = batches_per_epoch g"
      "length (sequence_indices g) = batches_per_epoch g"
    using r by (simp_all add: ready_def sample_indices_ok_def shape2_def)
  from py_index_range_Inr[of "sample_indices g" b] b l obtain sr where
    sr: "py_index (sample_indices g) b = Inr sr" "sr \<in> set (sample_indices g)" by auto
  from py_index_range_Inr[of "sequence_indices g" b] b l obtain qr where
    qr: "py_index (sequence_indices g) b = Inr qr" "qr \<in> set (sequence_indices g)" by auto
  have "map_result (fetch_row g b sr qr) [0..<batch_size g] \<noteq> Inl IndexError"
    by (rule map_result_not_error) (simp add: fetch_row_error[OF r b sr(2) qr(2)])
  then show ?thesis by (simp add: generate_batch_closed sr(1) qr(1))
qed

lemma getitem_in_range:
  assumes r: "ready g" and b: "- int (batches_per_epoch g) \<le> b" "b < int (batches_per_epoch g)"
  shows "getitem g b junk_i junk_f \<noteq> Inl IndexError"
proof -
  have l: "length (sample_indices g) = batches_per_epoch g"
    using r by (simp add: ready_def sample_indices_ok_def shape2_def)
  from py_index_range_Inr[of "sample_indices g" b] b l obtain sr where
    sr: "py_index (sample_indices g) b = Inr sr" by auto
  have p: "post_process_batch g (batch_to_kmers g batch junk_f) batch b \<noteq> Inl IndexError" for batch
    unfolding post_process_batch_def
    by (rule bind_not_error[OF batch_to_kmers_error])
       (simp add: sr split: option.splits DnaLabelType.splits)
  show ?thesis
    unfolding getitem_def by (rule bind_not_error[OF generate_batch_error[OF r b]]) (rule p)
qed

lemma getitem_out_of_range:
  assumes r: "ready g" and b: "b < - int (batches_per_epoch g) \<or> int (batches_per_epoch g) \<le> b"
  shows "getitem g b junk_i junk_f = Inl IndexError"
proof -
  have l: "length (sample_indices g) = batches_per_epoch g"
    using r by (simp add: ready_def sample_indices_ok_def shape2_def)
  have "py_index (sample_indices g) b = Inl IndexError" using b l by (simp add: py_index_out)
  then show ?thesis by (simp add: getitem_def generate_batch_closed)
qed

lemma compute_augmented_offset_wrap:
  assumes "fractions_ok r c (augment_offsets g)" "- int r \<le> b" "b < 0"
  shows "compute_augmented_offset g n (b, i) = compute_augmented_offset g n (b + int r, i)"
proof -
  from assms(1) obtain tbl where t: "augment_offsets g = Some tbl" "length tbl = r"
    by (auto simp: fractions_ok_def shape2_def)
  have "py_index tbl b = py_index tbl (b + int r)" using py_index_wrap[of b tbl] assms(2,3) t(2) by simp
  then show ?thesis by (simp add: compute_augmented_offset_def t(1))
qed

lemma getitem_negative:
  assumes r: "ready g" and b: "- int (batches_per_epoch g) \<le> b" "b < 0"
  shows "getitem g b junk_i junk_f = getitem g (b + int (batches_per_epoch g)) junk_i junk_f"
proof -
  define n where "n = batches_per_epoch g"
  have l: "length (sample_indices g) = n" "length (sequence_indices g) = n"
    using r by (simp_all add: ready_def sample_indices_ok_def shape2_def n_def)
  have w1: "py_index (sample_indices g) b = py_index (sample_indices g) (b + int n)"
    using py_index_wrap[of b "sample_indices g"] b l by (simp add: n_def)
  have w2: "py_index (sequence_indices g) b = py_index (sequence_indices g) (b + int n)"
    using py_index_wrap[of b "sequence_indices g"] b l by (simp add: n_def)
  have a: "augment_offset_fn g style m (b, i) = augment_offset_fn g style m (b + int n, i)"
    for style m i
  proof (cases "augment g")
    case True
    then have "fractions_ok n (batch_size g) (augment_offsets g)"
      using r by (simp add: ready_def n_def)
    from compute_augmented_offset_wrap[OF this, of b m i] b show ?thesis
      using True by (simp add: augment_offset_fn_def n_def)
  next
    case False
    then show ?thesis by (simp add: augment_offset_fn_def)
  qed
  have f: "fetch_row g b sr qr = fetch_row g (b + int n) sr qr" for sr qr
    by (rule ext) (simp add: fetch_row_def a)
  have gb: "generate_batch g b junk_i = generate_batch g (b + int n) junk_i"
    by (simp add: generate_batch_closed w1 w2 f)
  have pp: "post_process_batch g x batch b = post_process_batch g x batch (b + int n)"
    for x :: "real list list result" and batch :: "int list list"
    by (simp add: post_process_batch_def w1 cong: option.case_cong DnaLabelType.case_cong)
  show ?thesis unfolding getitem_def gb pp n_def[symmetric] ..
qed


subsection \<open>Batch indices of a sample generator\<close>

lemma assign_rows_error: "assign_rows m w src \<noteq> Inl IndexError"
proof -
  have "map_result (assign_row w) src \<noteq> Inl IndexError"
    by (rule map_result_not_error) (rule assign_row_error)
  moreover have "assign_row w (hd src) \<noteq> Inl IndexError" by (rule assign_row_error)
  ultimately show ?thesis by (auto simp: assign_rows_def split: sum.splits)
qed

lemma sample_batch_to_kmers_error: "sample_batch_to_kmers g batch junk \<noteq> Inl IndexError"
proof -
  have "bind (batch_to_kmers g x junk) (assign_rows m w) \<noteq> Inl IndexError" for x m w
    by (rule bind_not_error[OF batch_to_kmers_error]) (rule assign_rows_error)
  then show ?thesis
    unfolding sample_batch_to_kmers_closed by (simp add: map_result_not_error)
qed

lemma compute_augmented_offset3_ready:
  assumes "fractions3_ok r c m (augment_offsets g)" "- int r \<le> b" "b < int r" "i < c" "j < m"
  shows "\<exists>off. compute_augmented_offset3 g n (b, int i, int j) = Inr off"
proof -
  from assms(1) obtain tbl where t: "augment_offsets g = Some tbl" "shape3 r c m tbl"
    by (auto simp: fractions3_ok_def)
  have "length tbl = r" using t(2) by (simp add: shape3_def)
  with py_index_range_Inr[of tbl b] assms(2,3) obtain plane where
    plane: "py_index tbl b = Inr plane" "plane \<in> set tbl" by auto
  have p: "shape2 c m plane" using t(2) plane(2) by (simp add: shape3_def)
  then have "length plane = c" by (simp add: shape2_def)
  then have 1: "py_index plane (int i) = Inr (plane ! i)" "plane ! i \<in> set plane"
    using assms(4) by (simp_all add: py_index_nat)
  then have "length (plane ! i) = m" using p by (simp add: shape2_def)
  then have 2: "py_index (plane ! i) (int j) = Inr (plane ! i ! j)"
    using assms(5) by (simp add: py_index_nat)
  show ?thesis by (simp add: compute_augmented_offset3_def t(1) plane(1) 1(1) 2)
qed

lemma augment_offset_fn3_error:
  assumes "sample_ready g" "- int (batches_per_epoch g) \<le> b" "b < int (batches_per_epoch g)"
    "i < batch_size g" "j < subsample_length g"
  shows "augment_offset_fn3 g style n (b, int i, int j) \<noteq> Inl IndexError"
proof (cases "augment g")
  case True
  then have "fractions3_ok (batches_per_epoch g) (batch_size g) (subsample_length g)
      (augment_offsets g)"
    using assms(1) by (simp add: sample_ready_def)
  from compute_augmented_offset3_ready[OF this assms(2,3,4,5), of n]
  show ?thesis using True by (auto simp: augment_offset_fn3_def)
next
  case False
  then show ?thesis by (cases style) (simp_all add: augment_offset_fn3_def)
qed

lemma sample_fetch_row_error:
  assumes r: "sample_ready g"
    and b: "- int (batches_per_epoch g) \<le> b" "b < int (batches_per_epoch g)"
    and qr: "rows \<in> set (sequence_indices g)"
    and i: "i < batch_size g" and j: "j < subsample_length g"
  shows "sample_fetch_row g b sample rows i j \<noteq> Inl IndexError"
proof -
  from r qr have q: "shape2 (batch_size g) (subsample_length g) rows"
    by (auto simp: sample_ready_def shape3_def)
  then have "length rows = batch_size g" by (simp add: shape2_def)
  then have 1: "py_index rows (int i) = Inr (rows ! i)" "rows ! i \<in> set rows"
    using i by (simp_all add: py_index_nat)
  then have "length (rows ! i) = subsample_length g" using q by (simp add: shape2_def)
  then have 2: "py_index (rows ! i) (int j) = Inr (rows ! i ! j)"
    using j by (simp add: py_index_nat)
  show ?thesis
    unfolding sample_fetch_row_def
    by (simp add: 1(1) 2)
       (intro bind_not_error lmdb_get_error assign_row_error
          augment_offset_fn3_error[OF r b i j])
qed

lemma sample_generate_batch_error:
  assumes r: "sample_ready g"
    and b: "- int (batches_per_epoch g) \<le> b" "b < int (batches_per_epoch g)"
  shows "sample_generate_batch g b junk \<noteq> Inl IndexError"
proof -
  have ok: "sample_indices_ok g" using r by (simp add: sample_ready_def)
  have l: "length (sample_indices g) = batches_per_epoch g"
      "length (sequence_indices g) = batches_per_epoch g"
    using r by (simp_all add: sample_ready_def sample_indices_ok_def shape2_def shape3_def)
  from py_index_range_Inr[of "sample_indices g" b] b l obtain sr where
    sr: "py_index (sample_indices g) b = Inr sr" "sr \<in> set (sample_indices g)" by auto
  from py_index_range_Inr[of "sequence_indices g" b] b l obtain rows where
    rows: "py_index (sequence_indices g) b = Inr rows" "rows \<in> set (sequence_indices g)" by auto
  from ok sr(2) have s: "length sr = batch_size g"
      "\<forall>x\<in>set sr. 0 \<le> x \<and> x < int (length (samples g))"
    by (auto simp: sample_indices_ok_def shape2_def)
  have slot: "bind (py_index sr (int i)) (\<lambda>si.
        bind (py_index (samples g) si) (\<lambda>sample.
        map_result (sample_fetch_row g b sample rows i) [0..<subsample_length g]))
      \<noteq> Inl IndexError" if i: "i < batch_size g" for i
  proof -
    have 1: "py_index sr (int i) = Inr (sr ! i)" using s(1) i by (simp add: py_index_nat)
    have "sr ! i \<in> set sr" using s(1) i by simp
    then have "0 \<le> sr ! i" "sr ! i < int (length (samples g))" using s(2) by auto
    then have 2: "py_index (samples g) (sr ! i) = Inr (samples g ! nat (sr ! i))"
      by (rule py_index_nonneg)
    have "map_result (sample_fetch_row g b (samples g ! nat (sr ! i)) rows i)
        [0..<subsample_length g] \<noteq> Inl IndexError"
      by (rule map_result_not_error) (simp add: sample_fetch_row_error[OF r b rows(2) i])
    then show ?thesis by (simp add: 1 2)
  qed
  have "map_result
       (\<lambda>i. bind (py_index sr (int i)) (\<lambda>si.
            bind (py_index (samples g) si) (\<lambda>sample.
            map_result (sample_fetch_row g b sample rows i) [0..<subsample_length g])))
       [0..<batch_size g] \<noteq> Inl IndexError"
    by (rule map_result_not_error) (simp add: slot)
  then show ?thesis by (simp add: sample_generate_batch_closed sr(1) rows(1))
qed

lemma sample_getitem_in_range:
  assumes r: "sample_ready g"
    and b: "- int (batches_per_epoch g) \<le> b" "b < int (batches_per_epoch g)"
  shows "sample_getitem g b junk_i junk_f \<noteq> Inl IndexError"
proof -
  have l: "length (sample_indices g) = batches_per_epoch g"
    using r by (simp add: sample_ready_def sample_indices_ok_def shape2_def)
  from py_index_range_Inr[of "sample_indices g" b] b l obtain sr where
    sr: "py_index (sample_indices g) b = Inr sr" by auto
  have p: "post_process_batch g (sample_batch_to_kmers g batch junk_f) batch b \<noteq> Inl IndexError"
    for batch
    unfolding post_process_batch_def
    by (rule bind_not_error[OF sample_batch_to_kmers_error])
       (simp add: sr split: option.splits DnaLabelType.splits)
  show ?thesis
    unfolding sample_getitem_def
    by (rule bind_not_error[OF sample_generate_batch_error[OF r b]]) (rule p)
qed

lemma sample_getitem_out_of_range:
  assumes r: "sample_ready g"
    and b: "b < - int (batches_per_epoch g) \<or> int (batches_per_epoch g) \<le> b"
  shows "sample_getitem g b junk_i junk_f = Inl IndexError"
proof -
  have l: "length (sample_indices g) = batches_per_epoch g"
    using r by (simp add: sample_ready_def sample_indices_ok_def shape2_def)
  have "py_index (sample_indices g) b = Inl IndexError" using b l by (simp add: py_index_out)
  then show ?thesis by (simp add: sample_getitem_def sample_generate_batch_closed)
qed

lemma compute_augmented_offset3_wrap:
  assumes "fractions3_ok r c m (augment_offsets g)" "- int r \<le> b" "b < 0"
  shows "compute_augmented_offset3 g n (b, i) = compute_augmented_offset3 g n (b + int r, i)"
proof -
  from assms(1) obtain tbl where t: "augment_offsets g = Some tbl" "length tbl = r"
    by (auto simp: fractions3_ok_def shape3_def)
  have "py_index tbl b = py_index tbl (b + int r)"
    using py_index_wrap[of b tbl] assms(2,3) t(2) by simp
  then show ?thesis by (simp add: compute_augmented_offset3_def t(1))
qed

lemma sample_getitem_negative:
  assumes r: "sample_ready g" and b: "- int (batches_per_epoch g) \<le> b" "b < 0"
  shows "sample_getitem g b junk_i junk_f
    = sample_getitem g (b + int (batches_per_epoch g)) junk_i junk_f"
proof -
  define n where "n = batches_per_epoch g"
  have l: "length (sample_indices g) = n" "length (sequence_indices g) = n"
    using r by (simp_all add: sample_ready_def sample_indices_ok_def shape2_def shape3_def n_def)
  have w1: "py_index (sample_indices g) b = py_index (sample_indices g) (b + int n)"
    using py_index_wrap[of b "sample_indices g"] b l by (simp add: n_def)
  have w2: "py_index (sequence_indices g) b = py_index (sequence_indices g) (b + int n)"
    using py_index_wrap[of b "sequence_indices g"] b l by (simp add: n_def)
  have a: "augment_offset_fn3 g style m (b, i) = augment_offset_fn3 g style m (b + int n, i)"
    for style m i
  proof (cases "augment g")
    case True
    then have "fractions3_ok n (batch_size g) (subsample_length g) (augment_offsets g)"
      using r by (simp add: sample_ready_def n_def)
    from compute_augmented_offset3_wrap[OF this, of b m i] b show ?thesis
      using True by (simp add: augment_offset_fn3_def n_def)
  next
    case False
    then show ?thesis by (simp add: augment_offset_fn3_def)
  qed
  have f: "sample_fetch_row g b sample rows i = sample_fetch_row g (b + int n) sample rows i"
    for sample rows i
    by (rule ext) (simp add: sample_fetch_row_def a)
  have gb: "sample_generate_batch g b junk_i = sample_generate_batch g (b + int n) junk_i"
    by (simp add: sample_generate_batch_closed w1 w2 f)
  have pp: "post_process_batch g x batch b = post_process_batch g x batch (b + int n)"
    for x :: "real list list list result" and batch :: "int list list list"
    by (simp add: post_process_batch_def w1 cong: option.case_cong DnaLabelType.case_cong)
  show ?thesis unfolding sample_getitem_def gb pp n_def[symmetric] ..
qed


text \<open>
  C7 (as amended).  For a sequence generator and for a sample generator, after construction
  and any number of epoch boundaries, \<open>__getitem__(batch_index)\<close> raises \<open>IndexError\<close> for
  every \<open>batch_index \<ge> batches_per_epoch\<close> and every \<open>batch_index < -batches_per_epoch\<close>;
  for \<open>-batches_per_epoch \<le> batch_index < batches_per_epoch\<close> it does not raise
  \<open>IndexError\<close>, and a negative index in that range counts from the end: it is served as
  \<open>batch_index + batches_per_epoch\<close>.
\<close>

theorem getitem_index_range:
  assumes "rng_ok ops"
  shows "(DnaSequenceGenerator_init ops archives seq_len k bs bpe aug bal lbl seed = Inr g0 \<and>
          epochs ops e g0 = Inr g \<longrightarrow>
            (b < - int bpe \<or> int bpe \<le> b \<longrightarrow> getitem g b junk_i junk_f = Inl IndexError) \<and>
            (- int bpe \<le> b \<and> b < int bpe \<longrightarrow> getitem g b junk_i junk_f \<noteq> Inl IndexError) \<and>
            (- int bpe \<le> b \<and> b < 0 \<longrightarrow>
               getitem g b junk_i junk_f = getitem g (b + int bpe) junk_i junk_f)) \<and>
         (DnaSampleGenerator_init ops archives gsize seq_len k bs bpe aug bal lbl seed junk = Inr h0 \<and>
          sample_epochs ops e h0 = Inr h \<longrightarrow>
            (b < - int bpe \<or> int bpe \<le> b \<longrightarrow>
               sample_getitem h b junk_i junk_f = Inl IndexError) \<and>
            (- int bpe \<le> b \<and> b < int bpe \<longrightarrow>
               sample_getitem h b junk_i junk_f \<noteq> Inl IndexError) \<and>
            (- int bpe \<le> b \<and> b < 0 \<longrightarrow>
               sample_getitem h b junk_i junk_f = sample_getitem h (b + int bpe) junk_i junk_f))"
proof (intro conjI impI; (elim conjE)?)
  assume i: "DnaSequenceGenerator_init ops archives seq_len k bs bpe aug bal lbl seed = Inr g0"
    and e: "epochs ops e g0 = Inr g"
  note s = generator_state[OF assms i e]
  {
    assume "b < - int bpe \<or> int bpe \<le> b"
    then show "getitem g b junk_i junk_f = Inl IndexError"
      using getitem_out_of_range[OF s(1), of b junk_i junk_f] unfolding s(6) by simp
  next
    assume "- int bpe \<le> b" "b < int bpe"
    then show "getitem g b junk_i junk_f \<noteq> Inl IndexError"
      using getitem_in_range[OF s(1), of b junk_i junk_f] unfolding s(6) by simp
  next
    assume "- int bpe \<le> b" "b < 0"
    then show "getitem g b junk_i junk_f = getitem g (b + int bpe) junk_i junk_f"
      using getitem_negative[OF s(1), of b junk_i junk_f] unfolding s(6) by simp
  }
next
  assume i: "DnaSampleGenerator_init ops archives gsize seq_len k bs bpe aug bal lbl seed junk
      = Inr h0"
    and e: "sample_epochs ops e h0 = Inr h"
  note s = sample_generator_state[OF assms i e]
  {
    assume "b < - int bpe \<or> int bpe \<le> b"
    then show "sample_getitem h b junk_i junk_f = Inl IndexError"
      using sample_getitem_out_of_range[OF s(1), of b junk_i junk_f] unfolding s(6) by simp
  next
    assume "- int bpe \<le> b" "b < int bpe"
    then show "sample_getitem h b junk_i junk_f \<noteq> Inl IndexError"
      using sample_getitem_in_range[OF s(1), of b junk_i junk_f] unfolding s(6) by simp
  next
    assume "- int bpe \<le> b" "b < 0"
    then show "sample_getitem h b junk_i junk_f = sample_getitem h (b + int bpe) junk_i junk_f"
      using sample_getitem_negative[OF s(1), of b junk_i junk_f] unfolding s(6) by simp
  }
qed

theorem getitem_index_range_witness:
  "rng_ok demo_rng \<and>
   DnaSequenceGenerator_init demo_rng [demo_archive, demo_archive] 3 2 2 2 True False None 0
     = Inr demo_generator \<and>
   epochs demo_rng 0 demo_generator = Inr demo_generator \<and>
   getitem demo_generator 2 zero_junk zero_junk_f = Inl IndexError \<and>
   getitem demo_generator (- 3) zero_junk zero_junk_f = Inl IndexError \<and>
   getitem demo_generator 1 zero_junk zero_junk_f \<noteq> Inl IndexError \<and>
   getitem demo_generator (- 1) zero_junk zero_junk_f
     = getitem demo_generator (- 1 + int 2) zero_junk zero_junk_f \<and>
   DnaSampleGenerator_init demo_rng [demo_archive, demo_archive] 2 3 2 2 2 False True
     (Some SampleIds) 0 zero_junk = Inr demo_sample_generator \<and>
   sample_epochs demo_rng 0 demo_sample_generator = Inr demo_sample_generator \<and>
   sample_getitem demo_sample_generator 2 zero_junk zero_junk_f = Inl IndexError \<and>
   sample_getitem demo_sample_generator (- 3) zero_junk zero_junk_f = Inl IndexError \<and>
   sample_getitem demo_sample_generator 1 zero_junk zero_junk_f \<noteq> Inl IndexError \<and>
   sample_getitem demo_sample_generator (- 1) zero_junk zero_junk_f
     = sample_getitem demo_sample_generator (- 1 + int 2) zero_junk zero_junk_f"
proof -
  have e: "epochs demo_rng 0 demo_generator = Inr demo_generator" by simp
  have e': "sample_epochs demo_rng 0 demo_sample_generator = Inr demo_sample_generator" by simp
  note t = getitem_index_range[OF rng_ok_demo,
      where junk_i = zero_junk and junk_f = zero_junk_f,
      THEN conjunct1, rule_format, OF conjI, OF demo_generator_init e]
  note u = getitem_index_range[OF rng_ok_demo,
      where junk_i = zero_junk and junk_f = zero_junk_f,
      THEN conjunct2, rule_format, OF conjI, OF demo_sample_generator_init e']
  have 1: "getitem demo_generator 2 zero_junk zero_junk_f = Inl IndexError"
    using t[of 2] by simp
  have 2: "getitem demo_generator (- 3) zero_junk zero_junk_f = Inl IndexError"
    using t[of "- 3"] by simp
  have 3: "getitem demo_generator 1 zero_junk zero_junk_f \<noteq> Inl IndexError"
    using t[of 1] by simp
  have 4: "getitem demo_generator (- 1) zero_junk zero_junk_f
      = getitem demo_generator (- 1 + int 2) zero_junk zero_junk_f"
    using t[of "- 1"] by simp
  have 5: "sample_getitem demo_sample_generator 2 zero_junk zero_junk_f = Inl IndexError"
    using u[of 2] by simp
  have 6: "sample_getitem demo_sample_generator (- 3) zero_junk zero_junk_f = Inl IndexError"
    using u[of "- 3"] by simp
  have 7: "sample_getitem demo_sample_generator 1 zero_junk zero_junk_f \<noteq> Inl IndexError"
    using u[of 1] by simp
  have 8: "sample_getitem demo_sample_generator (- 1) zero_junk zero_junk_f
      = sample_getitem demo_sample_generator (- 1 + int 2) zero_junk zero_junk_f"
    using u[of "- 1"] by simp
  show ?thesis
    using rng_ok_demo demo_generator_init e 1 2 3 4 demo_sample_generator_init e' 5 6 7 8
    by blast
qed

text \<open>
  The claim as stated fails at \<open>batch_index = -1\<close>, which is outside
  \<open>0 \<le> batch_index < batches_per_epoch\<close>: both generators return their last batch.
\<close>

theorem getitem_negative_index_counterexample:
  "DnaSequenceGenerator_init demo_rng [demo_archive, demo_archive] 3 2 2 2 True False None 0
     = Inr demo_generator \<and>
   batches_per_epoch demo_generator = 2 \<and>
   getitem demo_generator (- 1) zero_junk zero_junk_f = Inr (Plain [[18, 18], [17, 11]]) \<and>
   getitem demo_generator 1 zero_junk zero_junk_f = Inr (Plain [[18, 18], [17, 11]]) \<and>
   DnaSampleGenerator_init demo_rng [demo_archive, demo_archive] 2 3 2 2 2 False True
     (Some SampleIds) 0 zero_junk = Inr demo_sample_generator \<and>
   batches_per_epoch demo_sample_generator = 2 \<and>
   sample_getitem demo_sample_generator (- 1) zero_junk zero_junk_f
     = Inr (WithSampleIds [[[23, 17], [18, 18]], [[23, 17], [18, 18]]] [0, 1])"
proof -
  have a: "getitem demo_generator (- 1) zero_junk zero_junk_f = Inr (Plain [[18, 18], [17, 11]])"
    by code_simp
  have b: "getitem demo_generator 1 zero_junk zero_junk_f = Inr (Plain [[18, 18], [17, 11]])"
    by code_simp
  have c: "batches_per_epoch demo_generator = 2" by (simp add: demo_generator_def)
  have d: "batches_per_epoch demo_sample_generator = 2" by (simp add: demo_sample_generator_def)
  have f: "sample_getitem demo_sample_generator (- 1) zero_junk zero_junk_f
     = Inr (WithSampleIds [[[23, 17], [18, 18]], [[23, 17], [18, 18]]] [0, 1])"
    by code_simp
  show ?thesis using demo_generator_init a b c demo_sample_generator_init d f by blast
qed
section \<open>Clip offsets\<close>

lemma fetch_row_unaugmented:
  assumes "\<not> augment g"
  shows "\<exists>err. fetch_row g b sr qr i = Inl err"
proof -
  have a: "augment_offset_fn g Keyword n idx = Inl TypeError" for n idx
    using assms by (simp add: augment_offset_fn_def)
  show ?thesis
    unfolding fetch_row_def a by (simp add: bind_def split: sum.splits)
qed

lemma map_result_first_error:
  assumes "xs \<noteq> []" "\<And>x. \<exists>err. f x = Inl err"
  shows "\<exists>err. map_result f xs = Inl err"
proof (cases xs)
  case Nil
  then show ?thesis using assms(1) by simp
next
  case (Cons x rest)
  from assms(2) obtain err where "f x = Inl err" by blast
  then show ?thesis by (simp add: Cons)
qed

lemma generate_batch_unaugmented:
  assumes "\<not> augment g" "0 < batch_size g"
  shows "\<exists>err. generate_batch g b junk = Inl err"
proof -
  have ne: "[0..<batch_size g] \<noteq> []" using assms(2) by simp
  have "\<exists>err. map_result (fetch_row g b sr qr) [0..<batch_size g] = Inl err" for sr qr
    by (rule map_result_first_error[OF ne]) (rule fetch_row_unaugmented[OF assms(1)])
  then show ?thesis
    unfolding generate_batch_closed by (simp add: bind_def split: sum.splits)
qed

text \<open>
  With augmentation the offset of a slot is the floor of \<open>u * (len - window + 1)\<close> for the
  fraction \<open>u\<close> that \<open>shuffle\<close> stored for the slot, and lies in \<open>[0, len - window]\<close> when
  the sequence is at least as long as the window.
\<close>

lemma offset_of_bounds:
  assumes "0 \<le> u" "u < 1" "int w \<le> n"
  shows "offset_of w n u = \<lfloor>u * real_of_int (n - int w + 1)\<rfloor> \<and>
         0 \<le> offset_of w n u \<and> offset_of w n u \<le> n - int w"
proof -
  define l where "l = n - int w + 1"
  have l: "1 \<le> l" using assms(3) by (simp add: l_def)
  have c: "u * real_of_int l = real_of_int l * u" by simp
  have p: "0 \<le> u * real_of_int l" using assms(1) l by simp
  from py_int_bound[OF assms(1,2) l] have "0 \<le> py_int (u * real_of_int l)"
      "py_int (u * real_of_int l) < l"
    unfolding c by simp_all
  moreover have "py_int (u * real_of_int l) = \<lfloor>u * real_of_int l\<rfloor>"
    using p by (simp add: py_int_def)
  ultimately show ?thesis unfolding offset_of_def l_def[symmetric] by (simp add: l_def)
qed

lemma augmented_offset_in_range:
  assumes r: "ready g" and a: "augment g"
    and b: "b < batches_per_epoch g" and i: "i < batch_size g"
    and n: "int (sequence_length g) \<le> n"
  shows "\<exists>u off. 0 \<le> u \<and> u < 1 \<and>
           augment_offset_fn g style n (int b, int i) = Inr off \<and>
           off = \<lfloor>u * real_of_int (n - int (sequence_length g) + 1)\<rfloor> \<and>
           0 \<le> off \<and> off \<le> n - int (sequence_length g)"
proof -
  from r a obtain tbl where t: "augment_offsets g = Some tbl"
      "shape2 (batches_per_epoch g) (batch_size g) tbl"
      "\<forall>row\<in>set tbl. \<forall>u\<in>set row. 0 \<le> u \<and> u < 1"
    by (auto simp: ready_def fractions_ok_def)
  have lt: "length tbl = batches_per_epoch g" using t(2) by (simp add: shape2_def)
  then have 1: "py_index tbl (int b) = Inr (tbl ! b)" "tbl ! b \<in> set tbl"
    using b by (simp_all add: py_index_nat)
  then have "length (tbl ! b) = batch_size g" using t(2) by (simp add: shape2_def)
  then have 2: "py_index (tbl ! b) (int i) = Inr (tbl ! b ! i)" "tbl ! b ! i \<in> set (tbl ! b)"
    using i by (simp_all add: py_index_nat)
  define u where "u = tbl ! b ! i"
  have u: "0 \<le> u" "u < 1" using t(3) 1(2) 2(2) by (auto simp: u_def)
  have "augment_offset_fn g style n (int b, int i) = Inr (offset_of (sequence_length g) n u)"
    using a by (simp add: augment_offset_fn_def compute_augmented_offset_def t(1) 1(1) 2(1) u_def)
  then show ?thesis using offset_of_bounds[OF u n] u by blast
qed

lemma augmented_offset3_in_range:
  assumes r: "sample_ready g" and a: "augment g"
    and b: "b < batches_per_epoch g" and i: "i < batch_size g" and j: "j < subsample_length g"
    and n: "int (sequence_length g) \<le> n"
  shows "\<exists>u off. 0 \<le> u \<and> u < 1 \<and>
           augment_offset_fn3 g style n (int b, int i, int j) = Inr off \<and>
           off = \<lfloor>u * real_of_int (n - int (sequence_length g) + 1)\<rfloor> \<and>
           0 \<le> off \<and> off \<le> n - int (sequence_length g)"
proof -
  from r a obtain tbl where t: "augment_offsets g = Some tbl"
      "shape3 (batches_per_epoch g) (batch_size g) (subsample_length g) tbl"
      "\<forall>p\<in>set tbl. \<forall>row\<in>set p. \<forall>u\<in>set row. 0 \<le> u \<and> u < 1"
    by (auto simp: sample_ready_def fractions3_ok_def)
  have lt: "length tbl = batches_per_epoch g" using t(2) by (simp add: shape3_def)
  then have 1: "py_index tbl (int b) = Inr (tbl ! b)" "tbl ! b \<in> set tbl"
    using b by (simp_all add: py_index_nat)
  then have p: "shape2 (batch_size g) (subsample_length g) (tbl ! b)"
    using t(2) by (simp add: shape3_def)
  then have "length (tbl ! b) = batch_size g" by (simp add: shape2_def)
  then have 2: "py_index (tbl ! b) (int i) = Inr (tbl ! b ! i)" "tbl ! b ! i \<in> set (tbl ! b)"
    using i by (simp_all add: py_index_nat)
  then have "length (tbl ! b ! i) = subsample_length g" using p by (simp add: shape2_def)
  then have 3: "py_index (tbl ! b ! i) (int j) = Inr (tbl ! b ! i ! j)"
      "tbl ! b ! i ! j \<in> set (tbl ! b ! i)"
    using j by (simp_all add: py_index_nat)
  define u where "u = tbl ! b ! i ! j"
  have u: "0 \<le> u" "u < 1" using t(3) 1(2) 2(2) 3(2) by (auto simp: u_def)
  have "augment_offset_fn3 g style n (int b, int i, int j)
      = Inr (offset_of (sequence_length g) n u)"
    using a
    by (simp add: augment_offset_fn3_def compute_augmented_offset3_def t(1) 1(1) 2(1) 3(1) u_def)
  then show ?thesis using offset_of_bounds[OF u n] u by blast
qed

text \<open>
  C4.  The offsets of an augmenting generator are as above, and the sample generator
  without augmentation uses offset \<open>0\<close>.  A \<open>DnaSequenceGenerator\<close> without augmentation
  does not: \<open>generate_batch\<close> passes \<open>augment_index\<close> by keyword to \<open>lambda *_: 0\<close>, which
  takes positional arguments only, so the call that should give offset \<open>0\<close> raises
  \<open>TypeError\<close> and no sequence is clipped.  The generator below is the one the constructor
  returns over two copies of the demo archive with \<open>augment = False\<close>; the sample generator
  passes the index by position and gets \<open>0\<close>.
\<close>

theorem unaugmented_offset_raises:
  "DnaSequenceGenerator_init demo_rng [demo_archive, demo_archive] 3 2 2 2 False True
     (Some SampleIds) 0 = Inr demo_plain_generator \<and>
   py_index (sample_indices demo_plain_generator) 0 = Inr [0, 1] \<and>
   py_index (sequence_indices demo_plain_generator) 0 = Inr [0, 0] \<and>
   lmdb_get demo_archive (py_str 0) = Inr [0, 1, 2, 3, 4, 1] \<and>
   augment_offset_fn demo_plain_generator Keyword 6 (0, 0) = Inl TypeError \<and>
   fetch_row demo_plain_generator 0 [0, 1] [0, 0] 0 = Inl TypeError \<and>
   generate_batch demo_plain_generator 0 zero_junk = Inl TypeError \<and>
   DnaSampleGenerator_init demo_rng [demo_archive, demo_archive] 2 3 2 2 2 False True
     (Some SampleIds) 0 zero_junk = Inr demo_sample_generator \<and>
   augment_offset_fn3 demo_sample_generator Positional 4 (0, 0, 0) = Inr 0 \<and>
   sample_generate_batch demo_sample_generator 0 zero_junk
     = Inr [[[4, 3, 2], [3, 3, 3]], [[4, 3, 2], [3, 3, 3]]]"
proof -
  have 1: "DnaSequenceGenerator_init demo_rng [demo_archive, demo_archive] 3 2 2 2 False True
     (Some SampleIds) 0 = Inr demo_plain_generator"
    by (rule demo_plain_generator_init)
  have 2: "py_index (sample_indices demo_plain_generator) 0 = Inr [0, 1]" by code_simp
  have 3: "py_index (sequence_indices demo_plain_generator) 0 = Inr [0, 0]" by code_simp
  have 4: "lmdb_get demo_archive (py_str 0) = Inr [0, 1, 2, 3, 4, 1]" by code_simp
  have 5: "augment_offset_fn demo_plain_generator Keyword 6 (0, 0) = Inl TypeError" by code_simp
  have 6: "fetch_row demo_plain_generator 0 [0, 1] [0, 0] 0 = Inl TypeError" by code_simp
  have 7: "generate_batch demo_plain_generator 0 zero_junk = Inl TypeError" by code_simp
  have 8: "DnaSampleGenerator_init demo_rng [demo_archive, demo_archive] 2 3 2 2 2 False True
     (Some SampleIds) 0 zero_junk = Inr demo_sample_generator"
    by (rule demo_sample_generator_init)
  have 9: "augment_offset_fn3 demo_sample_generator Positional 4 (0, 0, 0) = Inr 0" by code_simp
  have 10: "sample_generate_batch demo_sample_generator 0 zero_junk
     = Inr [[[4, 3, 2], [3, 3, 3]], [[4, 3, 2], [3, 3, 3]]]"
    by code_simp
  from 1 2 3 4 5 6 7 8 9 10 show ?thesis by blast
qed

section \<open>Serving the first epoch\<close>

text \<open>
  C10.  The constructors do build the tables of the first epoch, with the shapes the claim
  gives.  A \<open>DnaSequenceGenerator\<close> constructed with \<open>augment = False\<close> and a batch size of
  at least one nevertheless serves no batch, neither as the constructor returns it nor after
  any number of epoch boundaries: \<open>__getitem__\<close> raises at every batch index, because the
  first slot's offset is asked of \<open>lambda *_: 0\<close> with a keyword argument.
\<close>

theorem getitem_unaugmented_raises:
  assumes "rng_ok ops"
    and "DnaSequenceGenerator_init ops archives seq_len k bs bpe False bal lbl seed = Inr g0"
    and "epochs ops e g0 = Inr g"
    and "0 < bs"
  shows "\<exists>err. getitem g b junk_i junk_f = Inl err"
proof -
  have "\<not> augment g" "batch_size g = bs"
    using generator_state(7,5)[OF assms(1,2,3)] by simp_all
  then have "\<exists>err. generate_batch g b junk_i = Inl err"
    using generate_batch_unaugmented[of g b junk_i] assms(4) by simp
  then show ?thesis by (auto simp: getitem_def)
qed

theorem getitem_unaugmented_raises_witness:
  "rng_ok demo_rng \<and>
   DnaSequenceGenerator_init demo_rng [demo_archive, demo_archive] 3 2 2 2 False True
     (Some SampleIds) 0 = Inr demo_plain_generator \<and>
   epochs demo_rng 0 demo_plain_generator = Inr demo_plain_generator \<and>
   shape2 2 2 (sample_indices demo_plain_generator) \<and>
   shape2 2 2 (sequence_indices demo_plain_generator) \<and>
   (\<exists>err. getitem demo_plain_generator 0 zero_junk zero_junk_f = Inl err) \<and>
   getitem demo_plain_generator 0 zero_junk zero_junk_f = Inl TypeError \<and>
   getitem demo_plain_generator 1 zero_junk zero_junk_f = Inl TypeError"
proof -
  have e: "epochs demo_rng 0 demo_plain_generator = Inr demo_plain_generator" by simp
  have p: "(0::nat) < 2" by simp
  note w = getitem_unaugmented_raises[OF rng_ok_demo demo_plain_generator_init e p,
      where b = 0 and junk_i = zero_junk and junk_f = zero_junk_f]
  have s1: "shape2 2 2 (sample_indices demo_plain_generator)" by code_simp
  have s2: "shape2 2 2 (sequence_indices demo_plain_generator)" by code_simp
  have t0: "getitem demo_plain_generator 0 zero_junk zero_junk_f = Inl TypeError" by code_simp
  have t1: "getitem demo_plain_generator 1 zero_junk zero_junk_f = Inl TypeError" by code_simp
  from rng_ok_demo demo_plain_generator_init e w s1 s2 t0 t1 show ?thesis by blast
qed

section \<open>The standalone sampler\<close>

text \<open>
  C8.  With \<open>augment = True\<close> and \<open>balance = False\<close> the sampler returns the dense array of
  the claim.  The two other settings of the flags raise \<open>IndexError\<close> on the first draw:
  under \<open>balance\<close> the lengths have become the scalar \<open>np.min(sample_lengths)\<close>, which
  \<open>sample_lengths[i]\<close> cannot index, and without \<open>augment\<close> the offsets are
  \<open>np.zeros_like\<close> of the shape tuple, three zeros in one dimension, which
  \<open>augments[i,j,k]\<close> cannot index.  The generator classes clamp the array in place and use
  a constant offset function instead.
\<close>

theorem random_subsamples_flags_raise:
  "random_subsamples demo_rng [demo_archive] 3 2 1 True False 0 zero_junk_f
     = Inr [[[[4, 3, 2], [3, 3, 3]]]] \<and>
   random_subsamples demo_rng [demo_archive] 3 2 1 True True 0 zero_junk_f = Inl IndexError \<and>
   random_subsamples demo_rng [demo_archive] 3 2 1 False False 0 zero_junk_f = Inl IndexError \<and>
   random_subsamples demo_rng [demo_archive] 3 2 1 False True 0 zero_junk_f = Inl IndexError"
proof -
  have 1: "random_subsamples demo_rng [demo_archive] 3 2 1 True False 0 zero_junk_f
     = Inr [[[[4, 3, 2], [3, 3, 3]]]]"
    by code_simp
  have 2: "random_subsamples demo_rng [demo_archive] 3 2 1 True True 0 zero_junk_f
     = Inl IndexError"
    by code_simp
  have 3: "random_subsamples demo_rng [demo_archive] 3 2 1 False False 0 zero_junk_f
     = Inl IndexError"
    by code_simp
  have 4: "random_subsamples demo_rng [demo_archive] 3 2 1 False True 0 zero_junk_f
     = Inl IndexError"
    by code_simp
  from 1 2 3 4 show ?thesis by blast
qed

end
